theory Spec2Isabelle
  imports Main
begin

section \<open>Data model\<close>

text \<open>
  The GraphQL types of the chat (\<^verbatim>\<open>__generated__/resolvers-types.ts\<close>). The field
  \<^verbatim>\<open>id\<close> of a message is called \<open>msgId\<close> and \<^verbatim>\<open>text\<close> is called \<open>msgText\<close>, since both
  names are taken in HOL. The constant \<^verbatim>\<open>__typename\<close> tags are left out: no function below
  reads them.
\<close>

datatype MessageStatus = Read | Sending | Sent

datatype MessageSender = Admin | Customer

record Message =
  msgId :: string
  msgText :: string
  status :: MessageStatus
  updatedAt :: string
  sender :: MessageSender

record MessageEdge =
  node :: Message
  cursor :: string

record MessagePageInfo =
  hasNextPage :: bool
  hasPreviousPage :: bool
  startCursor :: "string option"
  endCursor :: "string option"

record MessagePage =
  edges :: "MessageEdge list"
  pageInfo :: MessagePageInfo

section \<open>JavaScript primitives used by the code\<close>

text \<open>
  \<^verbatim>\<open>new Date(s)\<close> is a library function: the models take it as a parameter \<open>D\<close> that gives
  the time value of a string in milliseconds, \<open>None\<close> standing for an Invalid Date (NaN).
  The relational operators on two dates compare the time values and are false as soon as
  one side is NaN.
\<close>

type_synonym Date = "int option"

definition date_lt :: "Date \<Rightarrow> Date \<Rightarrow> bool" where
  "date_lt a b = (case a of None \<Rightarrow> False
                  | Some x \<Rightarrow> (case b of None \<Rightarrow> False | Some y \<Rightarrow> x < y))"

definition date_ge :: "Date \<Rightarrow> Date \<Rightarrow> bool" where
  "date_ge a b = (case a of None \<Rightarrow> False
                  | Some x \<Rightarrow> (case b of None \<Rightarrow> False | Some y \<Rightarrow> x \<ge> y))"

text \<open>\<^verbatim>\<open>Array.prototype.findIndex\<close>: the first index whose element satisfies the predicate;
  the result \<^verbatim>\<open>-1\<close> is \<open>None\<close>.\<close>

fun findIndex :: "('a \<Rightarrow> bool) \<Rightarrow> 'a list \<Rightarrow> nat option" where
  "findIndex P [] = None"
| "findIndex P (x # xs) = (if P x then Some 0 else map_option Suc (findIndex P xs))"

text \<open>\<^verbatim>\<open>String.prototype.startsWith\<close>.\<close>

definition startsWith :: "string \<Rightarrow> string \<Rightarrow> bool" where
  "startsWith s p = (take (length p) s = p)"

section \<open>The cache\<close>

text \<open>
  The cache is modelled by what \<^verbatim>\<open>readQuery({query: GET_MESSAGES})\<close> returns: the
  \<^verbatim>\<open>messages\<close> page written last, or \<^verbatim>\<open>null\<close> (\<open>None\<close>) when the query was never
  written. \<open>writes\<close> records every \<^verbatim>\<open>writeQuery\<close> call, oldest first, so that a function
  that returns before writing can be told from one that writes back the same page.
\<close>

record ApolloCache =
  queryData :: "MessagePage option"
  writes :: "MessagePage list"

definition readQuery :: "ApolloCache \<Rightarrow> MessagePage option" where
  "readQuery cache = queryData cache"

definition writeQuery :: "ApolloCache \<Rightarrow> MessagePage \<Rightarrow> ApolloCache" where
  "writeQuery cache page = cache\<lparr>queryData := Some page, writes := writes cache @ [page]\<rparr>"

section \<open>cache-utils.ts\<close>

definition newEdge :: "Message \<Rightarrow> MessageEdge" where
  "newEdge message = \<lparr>node = message, cursor = ''cursor_'' @ msgId message\<rparr>"

definition upsertMessageInCache :: "(string \<Rightarrow> Date) \<Rightarrow> ApolloCache \<Rightarrow> Message \<Rightarrow> ApolloCache" where
  "upsertMessageInCache D cache message =
     (case readQuery cache of
        None \<Rightarrow> cache
      | Some existingData \<Rightarrow>
          (case findIndex (\<lambda>e. msgId (node e) = msgId message) (edges existingData) of
             None \<Rightarrow>
               writeQuery cache
                 (existingData\<lparr>edges := edges existingData @ [newEdge message]\<rparr>)
           | Some index \<Rightarrow>
               (let existing = node (edges existingData ! index) in
                if date_lt (D (updatedAt message)) (D (updatedAt existing)) then cache
                else writeQuery cache
                  (existingData\<lparr>edges :=
                     (edges existingData)[index := (edges existingData ! index)\<lparr>node := message\<rparr>]\<rparr>))))"

definition isTempMatch :: "string \<Rightarrow> MessageEdge \<Rightarrow> bool" where
  "isTempMatch txt edge =
     (startsWith (msgId (node edge)) ''temp-'' \<and> msgText (node edge) = txt)"

definition removeTempMessagesByText :: "ApolloCache \<Rightarrow> string \<Rightarrow> ApolloCache" where
  "removeTempMessagesByText cache txt =
     (case readQuery cache of
        None \<Rightarrow> cache
      | Some existingData \<Rightarrow>
          (let filteredEdges = filter (\<lambda>edge. \<not> isTempMatch txt edge) (edges existingData) in
           if length filteredEdges = length (edges existingData) then cache
           else writeQuery cache (existingData\<lparr>edges := filteredEdges\<rparr>)))"

section \<open>Cache field policy: merging pages\<close>

text \<open>
  \<^verbatim>\<open>messagesFieldPolicy.merge(existing, incoming, {args})\<close>. \<^verbatim>\<open>args\<close> may be \<^verbatim>\<open>null\<close>, and each
  cursor may be missing; \<^verbatim>\<open>args?.after\<close> is tested for truthiness, so an empty cursor
  counts as no cursor. The spread \<^verbatim>\<open>...incoming\<close> contributes no field beyond \<^verbatim>\<open>edges\<close>
  and \<^verbatim>\<open>pageInfo\<close>, which are both overwritten.
\<close>

record MergeArgs =
  first :: "int option"
  after :: "string option"
  before :: "string option"

definition truthy :: "string option \<Rightarrow> bool" where
  "truthy v = (case v of None \<Rightarrow> False | Some s \<Rightarrow> s \<noteq> [])"

definition messagesFieldPolicy_merge ::
    "MessagePage option \<Rightarrow> MessagePage \<Rightarrow> MergeArgs option \<Rightarrow> MessagePage" where
  "messagesFieldPolicy_merge existing incoming args =
     (case existing of
        None \<Rightarrow> incoming
      | Some ex \<Rightarrow>
          if truthy (Option.bind args after) then
            incoming\<lparr>edges := edges ex @ edges incoming, pageInfo := pageInfo incoming\<rparr>
          else if truthy (Option.bind args before) then
            incoming\<lparr>edges := edges incoming @ edges ex,
                     pageInfo := (pageInfo incoming)\<lparr>hasNextPage := hasNextPage (pageInfo ex),
                                                      endCursor := endCursor (pageInfo ex)\<rparr>\<rparr>
          else incoming)"

section \<open>Subscription handlers\<close>

text \<open>
  \<^verbatim>\<open>widgets/chat/hooks/useMessageSubscriptions.ts\<close>, the hook that \<^verbatim>\<open>useChat\<close> imports. A
  handler works on the cache and on the state \<open>ui\<close> of whoever passed the callback; the
  optional callback is \<open>None\<close> when it was not given. Every operation of the model is
  total, so the \<^verbatim>\<open>catch\<close> branch, which only logs, is never taken.
\<close>

definition handleNewMessage ::
    "(Message \<Rightarrow> 'u \<Rightarrow> 'u) option \<Rightarrow> Message \<Rightarrow> ApolloCache \<times> 'u \<Rightarrow> ApolloCache \<times> 'u" where
  "handleNewMessage onMessageAdded newMessage = (\<lambda>(cache, ui).
     (case readQuery cache of
        None \<Rightarrow> (cache, ui)
      | Some existingData \<Rightarrow>
          (let messageExists =
                 list_ex (\<lambda>edge. msgId (node edge) = msgId newMessage) (edges existingData) in
           if \<not> messageExists then
             (writeQuery cache
                (existingData\<lparr>edges := edges existingData @ [newEdge newMessage]\<rparr>),
              (case onMessageAdded of None \<Rightarrow> ui | Some f \<Rightarrow> f newMessage ui))
           else (cache, ui))))"




section \<open>Sending a message\<close>

text \<open>
  The \<^verbatim>\<open>update\<close> callback of the mutation in \<^verbatim>\<open>useSendMessage\<close>, with \<open>data\<close> standing for
  \<^verbatim>\<open>data?.sendMessage\<close>. It evicts the temporary edges and upserts the confirmed message
  inline, and always writes once the cache holds a page.
\<close>

definition finalEdges :: "(string \<Rightarrow> Date) \<Rightarrow> MessageEdge list \<Rightarrow> Message \<Rightarrow> MessageEdge list" where
  "finalEdges D es sendMessage =
     (let edgesWithoutTemps =
            filter (\<lambda>edge.
                let isTemp = startsWith (msgId (node edge)) ''temp-'';
                    sameText = (msgText (node edge) = msgText sendMessage)
                in \<not> (isTemp \<and> sameText)) es;
          existsNow = list_ex (\<lambda>edge. msgId (node edge) = msgId sendMessage) edgesWithoutTemps
      in if \<not> existsNow then edgesWithoutTemps @ [newEdge sendMessage]
         else map (\<lambda>edge.
                if msgId (node edge) = msgId sendMessage
                   \<and> date_ge (D (updatedAt sendMessage)) (D (updatedAt (node edge)))
                then edge\<lparr>node := sendMessage\<rparr>
                else edge) edgesWithoutTemps)"

definition useSendMessage_update ::
    "(string \<Rightarrow> Date) \<Rightarrow> ApolloCache \<Rightarrow> Message option \<Rightarrow> ApolloCache" where
  "useSendMessage_update D cache data =
     (case data of
        None \<Rightarrow> cache
      | Some sendMessage \<Rightarrow>
          (case readQuery cache of
             None \<Rightarrow> cache
           | Some existingData \<Rightarrow>
               writeQuery cache
                 (existingData\<lparr>edges := finalEdges D (edges existingData) sendMessage\<rparr>)))"

text \<open>
  \<^verbatim>\<open>String.prototype.trim\<close> removes white space and line terminators at both ends. A
  \<open>char\<close> is a code unit below 256; of the characters JavaScript trims, these are the
  ones in that range.
\<close>

definition isWhiteSpace :: "char \<Rightarrow> bool" where
  "isWhiteSpace c = ((of_char c :: nat) \<in> set [9, 10, 11, 12, 13, 32, 160])"

definition trim :: "string \<Rightarrow> string" where
  "trim s = rev (dropWhile isWhiteSpace (rev (dropWhile isWhiteSpace s)))"

text \<open>
  A promise either resolves with a value or rejects. The world of the send path is the
  cache together with the list of the variables of every call of the mutation, oldest
  first. What the network answers, and what the mutation's \<^verbatim>\<open>update\<close> does to the cache on
  the way, is a parameter \<open>link\<close>.
\<close>

datatype 'a Promise = Resolved 'a | Rejected

record World =
  clientCache :: ApolloCache
  mutations :: "string list"

type_synonym Link = "string \<Rightarrow> ApolloCache \<Rightarrow> Message option Promise \<times> ApolloCache"

definition sendMessageMutation :: "Link \<Rightarrow> string \<Rightarrow> World \<Rightarrow> Message option Promise \<times> World" where
  "sendMessageMutation link txt w =
     (case link txt (clientCache w) of
        (r, c) \<Rightarrow> (r, w\<lparr>clientCache := c, mutations := mutations w @ [txt]\<rparr>))"

definition useSendMessage_sendMessage ::
    "Link \<Rightarrow> string \<Rightarrow> World \<Rightarrow> Message option Promise \<times> World" where
  "useSendMessage_sendMessage link txt w =
     (if trim txt = [] then (Resolved None, w)
      else (case sendMessageMutation link (trim txt) w of
              (Resolved d, w') \<Rightarrow> (Resolved d, w')
            | (Rejected, w') \<Rightarrow> (Resolved None, w')))"

section \<open>useChat\<close>

text \<open>
  The state of the \<^verbatim>\<open>useChat\<close> hook. \<open>newMessagesCount\<close> starts at 0 and is only ever
  incremented or reset, so it is a natural number. The timers that set \<open>isConnected\<close>
  back after three seconds are not part of the model.
\<close>

record ChatState =
  inputValue :: string
  isConnected :: bool
  isAtBottom :: bool
  newMessagesCount :: nat

definition initialChatState :: ChatState where
  "initialChatState =
     \<lparr>inputValue = [], isConnected = True, isAtBottom = True, newMessagesCount = 0\<rparr>"

definition onMessageAdded :: "Message \<Rightarrow> ChatState \<Rightarrow> ChatState" where
  "onMessageAdded message st =
     (if \<not> isAtBottom st then st\<lparr>newMessagesCount := newMessagesCount st + 1\<rparr> else st)"

definition handleAtBottomChange :: "bool \<Rightarrow> ChatState \<Rightarrow> ChatState" where
  "handleAtBottomChange atBottom st =
     (let st' = st\<lparr>isAtBottom := atBottom\<rparr> in
      if atBottom \<and> newMessagesCount st > 0 then st'\<lparr>newMessagesCount := 0\<rparr> else st')"

definition resetNewMessages :: "ChatState \<Rightarrow> ChatState" where
  "resetNewMessages st = st\<lparr>newMessagesCount := 0\<rparr>"

definition useChat_sendMessage ::
    "(string \<Rightarrow> 'w \<Rightarrow> 'r Promise \<times> 'w) \<Rightarrow> string \<Rightarrow> ChatState \<times> 'w \<Rightarrow> ChatState \<times> 'w" where
  "useChat_sendMessage sendMessageMutation' txt = (\<lambda>(st, w).
     (let trimmedText = trim txt in
      if trimmedText = [] then (st, w)
      else (case sendMessageMutation' trimmedText w of
              (Resolved _, w') \<Rightarrow> (st, w')
            | (Rejected, w') \<Rightarrow> (st\<lparr>isConnected := False\<rparr>, w'))))"

definition handleSubmit ::
    "(string \<Rightarrow> 'w \<Rightarrow> 'r Promise \<times> 'w) \<Rightarrow> bool \<Rightarrow> ChatState \<times> 'w \<Rightarrow> ChatState \<times> 'w" where
  "handleSubmit sendMessageMutation' sendingMessage = (\<lambda>(st, w).
     if trim (inputValue st) = [] \<or> sendingMessage then (st, w)
     else (let messageText = inputValue st in
           useChat_sendMessage sendMessageMutation' messageText (st\<lparr>inputValue := []\<rparr>, w)))"

section \<open>Observing the store\<close>

text \<open>
  The record the store holds for an id is the node of the first edge with that id, the
  one \<open>findIndex\<close> selects; \<open>storedInstant\<close> is the instant of its \<^verbatim>\<open>updatedAt\<close>.
  \<open>applyUpserts\<close> applies a sequence of upserts from left to right, and \<open>cachedEdges\<close>
  are the edges the cache holds, none when it holds no page.
\<close>

definition cachedEdges :: "ApolloCache \<Rightarrow> MessageEdge list" where
  "cachedEdges c = (case readQuery c of None \<Rightarrow> [] | Some page \<Rightarrow> edges page)"

definition storedNode :: "ApolloCache \<Rightarrow> string \<Rightarrow> Message option" where
  "storedNode c i =
     (case readQuery c of
        None \<Rightarrow> None
      | Some page \<Rightarrow> map_option node (find (\<lambda>e. msgId (node e) = i) (edges page)))"

definition storedInstant :: "(string \<Rightarrow> Date) \<Rightarrow> ApolloCache \<Rightarrow> string \<Rightarrow> Date" where
  "storedInstant D c i = Option.bind (storedNode c i) (\<lambda>n. D (updatedAt n))"

definition applyUpserts :: "(string \<Rightarrow> Date) \<Rightarrow> ApolloCache \<Rightarrow> Message list \<Rightarrow> ApolloCache" where
  "applyUpserts D c ms = foldl (upsertMessageInCache D) c ms"

definition appliedInstants :: "(string \<Rightarrow> Date) \<Rightarrow> string \<Rightarrow> Message list \<Rightarrow> int list" where
  "appliedInstants D i ms =
     List.map_filter (\<lambda>m. if msgId m = i then D (updatedAt m) else None) ms"

text \<open>
  What one upsert of a message does to the record stored for the id of that message: it
  becomes the stored record unless the stored one is strictly fresher.
\<close>

definition arbitrate :: "(string \<Rightarrow> Date) \<Rightarrow> Message option \<Rightarrow> Message \<Rightarrow> Message option" where
  "arbitrate D cur m =
     (case cur of
        None \<Rightarrow> Some m
      | Some n \<Rightarrow> if date_lt (D (updatedAt m)) (D (updatedAt n)) then Some n else Some m)"

text \<open>The maximum of the instant stored at the start, if any, and the applied instants.\<close>

definition freshest :: "Date \<Rightarrow> int list \<Rightarrow> Date" where
  "freshest init ts =
     (case init of
        None \<Rightarrow> (if ts = [] then None else Some (Max (set ts)))
      | Some t0 \<Rightarrow> Some (Max (set (t0 # ts))))"

section \<open>Concrete data\<close>

text \<open>
  The two timestamps of \<^verbatim>\<open>cache-utils.test.ts\<close> with their time values, for evaluating
  the functions on concrete stores.
\<close>

definition testClock :: "string \<Rightarrow> Date" where
  "testClock s =
     (if s = ''2023-01-01T00:00:00.000Z'' then Some 1672531200000
      else if s = ''2023-01-02T00:00:00.000Z'' then Some 1672617600000
      else None)"

definition mkMessage :: "string \<Rightarrow> string \<Rightarrow> string \<Rightarrow> MessageStatus \<Rightarrow> MessageSender \<Rightarrow> Message" where
  "mkMessage i t u st sd = \<lparr>msgId = i, msgText = t, status = st, updatedAt = u, sender = sd\<rparr>"

definition mkPage :: "Message list \<Rightarrow> MessagePage" where
  "mkPage ms =
     \<lparr>edges = map newEdge ms,
      pageInfo = \<lparr>hasNextPage = False, hasPreviousPage = False,
                  startCursor = (case ms of [] \<Rightarrow> None | m # _ \<Rightarrow> Some (''cursor_'' @ msgId m)),
                  endCursor = (case rev ms of [] \<Rightarrow> None | m # _ \<Rightarrow> Some (''cursor_'' @ msgId m))\<rparr>\<rparr>"

definition cacheOf :: "MessagePage \<Rightarrow> ApolloCache" where
  "cacheOf page = \<lparr>queryData = Some page, writes = []\<rparr>"

text \<open>A store with one server message and one temporary message, and an update of the
  server message.\<close>

definition framePage :: MessagePage where
  "framePage = mkPage
     [mkMessage ''1'' ''Message 1'' ''2023-01-01T00:00:00.000Z'' Sent Customer,
      mkMessage ''temp-123'' ''Message 2'' ''2023-01-02T00:00:00.000Z'' Sending Admin]"

definition frameStore :: ApolloCache where
  "frameStore = cacheOf framePage"

definition frameUpdate :: Message where
  "frameUpdate = mkMessage ''1'' ''Message 1'' ''2023-01-02T00:00:00.000Z'' Read Customer"

text \<open>A store in which an earlier server message has the text of the message being sent,
  next to the temporary edge of the send; and the confirmed message.\<close>

definition sameTextStore :: ApolloCache where
  "sameTextStore = cacheOf (mkPage
     [mkMessage ''5'' ''hi'' ''2023-01-01T00:00:00.000Z'' Read Admin,
      mkMessage ''temp-1'' ''hi'' ''2023-01-02T00:00:00.000Z'' Sending Admin])"

definition tempStore :: ApolloCache where
  "tempStore = cacheOf (mkPage
     [mkMessage ''7'' ''bye'' ''2023-01-01T00:00:00.000Z'' Read Customer,
      mkMessage ''temp-1'' ''hi'' ''2023-01-02T00:00:00.000Z'' Sending Admin,
      mkMessage ''temp-2'' ''bye'' ''2023-01-02T00:00:00.000Z'' Sending Admin,
      mkMessage ''temp-3'' ''hi'' ''2023-01-02T00:00:00.000Z'' Sending Admin])"

definition confirmed :: Message where
  "confirmed = mkMessage ''42'' ''hi'' ''2023-01-02T00:00:00.000Z'' Sending Admin"

text \<open>A store that holds id 7 with the later of the two timestamps, and a sequence of
  upserts; the first of them is older than what the store holds.\<close>

definition staleStore :: ApolloCache where
  "staleStore = cacheOf (mkPage
     [mkMessage ''7'' ''second'' ''2023-01-02T00:00:00.000Z'' Read Customer])"

definition freshStore :: ApolloCache where
  "freshStore = cacheOf (mkPage
     [mkMessage ''7'' ''first'' ''2023-01-01T00:00:00.000Z'' Sending Customer])"

definition upserts :: "Message list" where
  "upserts =
     [mkMessage ''7'' ''a'' ''2023-01-02T00:00:00.000Z'' Sent Customer,
      mkMessage ''7'' ''stale'' ''2023-01-01T00:00:00.000Z'' Sending Customer,
      mkMessage ''8'' ''other'' ''2023-01-01T00:00:00.000Z'' Sent Admin,
      mkMessage ''7'' ''b'' ''2023-01-02T00:00:00.000Z'' Read Customer]"

text \<open>Stores for the acknowledgement of a send: one that the push event for id 42 has
  already reached, one that holds id 42 with another text and a later timestamp, and one
  that holds id 42 twice; and an acknowledgement older than what the second store holds.\<close>

definition ackStore :: ApolloCache where
  "ackStore = cacheOf (mkPage
     [mkMessage ''7'' ''bye'' ''2023-01-01T00:00:00.000Z'' Read Customer,
      mkMessage ''temp-1'' ''hi'' ''2023-01-02T00:00:00.000Z'' Sending Admin,
      mkMessage ''42'' ''hi'' ''2023-01-02T00:00:00.000Z'' Sent Admin])"

definition otherTextStore :: ApolloCache where
  "otherTextStore = cacheOf (mkPage
     [mkMessage ''42'' ''hello'' ''2023-01-02T00:00:00.000Z'' Sent Admin,
      mkMessage ''temp-1'' ''hi'' ''2023-01-02T00:00:00.000Z'' Sending Admin])"

definition duplicateStore :: ApolloCache where
  "duplicateStore = cacheOf (mkPage
     [mkMessage ''42'' ''hi'' ''2023-01-01T00:00:00.000Z'' Sending Admin,
      mkMessage ''42'' ''hi'' ''2023-01-01T00:00:00.000Z'' Sending Admin,
      mkMessage ''temp-1'' ''hi'' ''2023-01-02T00:00:00.000Z'' Sending Admin])"

definition staleConfirmed :: Message where
  "staleConfirmed = mkMessage ''42'' ''hi'' ''2023-01-01T00:00:00.000Z'' Sending Admin"




section \<open>Facts about findIndex\<close>

lemma findIndex_None_iff: "findIndex P xs = None \<longleftrightarrow> (\<forall>x \<in> set xs. \<not> P x)"
  by (induction xs) auto

lemma findIndex_Some_first:
  "findIndex P xs = Some i \<Longrightarrow> i < length xs \<and> P (xs ! i) \<and> (\<forall>j < i. \<not> P (xs ! j))"
proof (induction xs arbitrary: i)
  case Nil
  then show ?case by simp
next
  case (Cons x xs)
  show ?case
  proof (cases "P x")
    case True
    with Cons.prems show ?thesis by simp
  next
    case False
    with Cons.prems obtain k where k: "findIndex P xs = Some k" "i = Suc k"
      by auto
    from Cons.IH [OF k(1)] have ih: "k < length xs" "P (xs ! k)" "\<forall>j < k. \<not> P (xs ! j)"
      by simp_all
    have "\<forall>j < Suc k. \<not> P ((x # xs) ! j)"
    proof (intro allI impI)
      fix j assume "j < Suc k"
      then show "\<not> P ((x # xs) ! j)"
        using False ih(3) by (cases j) simp_all
    qed
    with ih k show ?thesis by simp
  qed
qed

lemma findIndex_first_Some:
  assumes "i < length xs" "P (xs ! i)" "\<forall>j < i. \<not> P (xs ! j)"
  shows "findIndex P xs = Some i"
proof (cases "findIndex P xs")
  case None
  with assms(1,2) show ?thesis
    by (auto simp: findIndex_None_iff)
next
  case (Some k)
  from findIndex_Some_first [OF Some]
  have k: "k < length xs" "P (xs ! k)" "\<forall>j < k. \<not> P (xs ! j)" by simp_all
  have "k = i"
  proof (rule ccontr)
    assume "k \<noteq> i"
    then consider "k < i" | "i < k" by linarith
    then show False
      using assms k by cases auto
  qed
  with Some show ?thesis by simp
qed

section \<open>Upsert by freshness\<close>

text \<open>The three outcomes of \<open>upsertMessageInCache\<close> on a cache that holds a page.\<close>

lemma upsert_absent:
  assumes "readQuery cache = Some page"
    and "\<forall>e \<in> set (edges page). msgId (node e) \<noteq> msgId m"
  shows "upsertMessageInCache D cache m =
           writeQuery cache (page\<lparr>edges := edges page @ [newEdge m]\<rparr>)"
proof -
  have "findIndex (\<lambda>e. msgId (node e) = msgId m) (edges page) = None"
    using assms(2) by (simp add: findIndex_None_iff)
  with assms(1) show ?thesis
    by (simp add: upsertMessageInCache_def)
qed

lemma upsert_stale:
  assumes "readQuery cache = Some page"
    and "findIndex (\<lambda>e. msgId (node e) = msgId m) (edges page) = Some i"
    and "date_lt (D (updatedAt m)) (D (updatedAt (node (edges page ! i))))"
  shows "upsertMessageInCache D cache m = cache"
  using assms by (simp add: upsertMessageInCache_def)

lemma upsert_fresh:
  assumes "readQuery cache = Some page"
    and "findIndex (\<lambda>e. msgId (node e) = msgId m) (edges page) = Some i"
    and "\<not> date_lt (D (updatedAt m)) (D (updatedAt (node (edges page ! i))))"
  shows "upsertMessageInCache D cache m =
           writeQuery cache (page\<lparr>edges := (edges page)[i := (edges page ! i)\<lparr>node := m\<rparr>]\<rparr>)"
  using assms by (simp add: upsertMessageInCache_def)

lemma readQuery_writeQuery [simp]: "readQuery (writeQuery cache page) = Some page"
  by (simp add: readQuery_def writeQuery_def)

text \<open>
  C1. Upsert by freshness on a cache that holds a page. If no edge carries the incoming
  id, one edge with the incoming message and the cursor \<^verbatim>\<open>cursor_<id>\<close> is appended at the
  end. If \<open>i\<close> is the first edge with the incoming id and the incoming \<^verbatim>\<open>updatedAt\<close> is an
  instant strictly before the stored one, the cache is left exactly as it was (nothing is
  written). If the incoming instant is greater than or equal to the stored one, the node
  of edge \<open>i\<close> is replaced by the incoming message; the edge keeps its position and its
  cursor, and every other edge and the page info are as before.
\<close>

theorem C1_upsert_by_freshness:
  assumes "readQuery cache = Some page"
  shows "((\<forall>e \<in> set (edges page). msgId (node e) \<noteq> msgId m) \<longrightarrow>
            readQuery (upsertMessageInCache D cache m) =
              Some (page\<lparr>edges := edges page @ [\<lparr>node = m, cursor = ''cursor_'' @ msgId m\<rparr>]\<rparr>))
       \<and> (\<forall>i a b. i < length (edges page) \<and> msgId (node (edges page ! i)) = msgId m
              \<and> (\<forall>j < i. msgId (node (edges page ! j)) \<noteq> msgId m)
              \<and> D (updatedAt m) = Some a \<and> D (updatedAt (node (edges page ! i))) = Some b
            \<longrightarrow> (a < b \<longrightarrow> upsertMessageInCache D cache m = cache)
              \<and> (a \<ge> b \<longrightarrow> readQuery (upsertMessageInCache D cache m) =
                    Some (page\<lparr>edges := (edges page)[i := \<lparr>node = m, cursor = cursor (edges page ! i)\<rparr>]\<rparr>)))"
proof (intro conjI impI allI)
  assume "\<forall>e \<in> set (edges page). msgId (node e) \<noteq> msgId m"
  from upsert_absent [OF assms this]
  show "readQuery (upsertMessageInCache D cache m) =
          Some (page\<lparr>edges := edges page @ [\<lparr>node = m, cursor = ''cursor_'' @ msgId m\<rparr>]\<rparr>)"
    by (simp add: newEdge_def)
next
  fix i a b
  assume h: "i < length (edges page) \<and> msgId (node (edges page ! i)) = msgId m
              \<and> (\<forall>j < i. msgId (node (edges page ! j)) \<noteq> msgId m)
              \<and> D (updatedAt m) = Some a \<and> D (updatedAt (node (edges page ! i))) = Some b"
  then have fi: "findIndex (\<lambda>e. msgId (node e) = msgId m) (edges page) = Some i"
    by (intro findIndex_first_Some) simp_all
  {
    assume "a < b"
    with h have "date_lt (D (updatedAt m)) (D (updatedAt (node (edges page ! i))))"
      by (simp add: date_lt_def)
    from upsert_stale [OF assms fi this]
    show "upsertMessageInCache D cache m = cache" .
  }
  {
    assume "b \<le> a"
    with h have "\<not> date_lt (D (updatedAt m)) (D (updatedAt (node (edges page ! i))))"
      by (simp add: date_lt_def)
    from upsert_fresh [OF assms fi this]
    have "readQuery (upsertMessageInCache D cache m) =
            Some (page\<lparr>edges := (edges page)[i := (edges page ! i)\<lparr>node := m\<rparr>]\<rparr>)"
      by simp
    moreover have "(edges page ! i)\<lparr>node := m\<rparr> = \<lparr>node = m, cursor = cursor (edges page ! i)\<rparr>"
      by simp
    ultimately show "readQuery (upsertMessageInCache D cache m) =
        Some (page\<lparr>edges := (edges page)[i := \<lparr>node = m, cursor = cursor (edges page ! i)\<rparr>]\<rparr>)"
      by simp
  }
qed

lemmas concrete_defs =
  testClock_def mkMessage_def mkPage_def cacheOf_def newEdge_def readQuery_def writeQuery_def

theorem C1_upsert_by_freshness_witness:
  "readQuery (upsertMessageInCache testClock
      (cacheOf (mkPage [mkMessage ''1'' ''Existing message'' ''2023-01-01T00:00:00.000Z'' Sent Customer]))
      (mkMessage ''2'' ''New message'' ''2023-01-02T00:00:00.000Z'' Sent Customer))
    = Some ((mkPage [mkMessage ''1'' ''Existing message'' ''2023-01-01T00:00:00.000Z'' Sent Customer])
        \<lparr>edges :=
           [\<lparr>node = mkMessage ''1'' ''Existing message'' ''2023-01-01T00:00:00.000Z'' Sent Customer,
             cursor = ''cursor_1''\<rparr>,
            \<lparr>node = mkMessage ''2'' ''New message'' ''2023-01-02T00:00:00.000Z'' Sent Customer,
             cursor = ''cursor_2''\<rparr>]\<rparr>)
   \<and> upsertMessageInCache testClock
        (cacheOf (mkPage [mkMessage ''1'' ''Original text'' ''2023-01-02T00:00:00.000Z'' Sent Customer]))
        (mkMessage ''1'' ''Stale text'' ''2023-01-01T00:00:00.000Z'' Sent Customer)
      = cacheOf (mkPage [mkMessage ''1'' ''Original text'' ''2023-01-02T00:00:00.000Z'' Sent Customer])
   \<and> readQuery (upsertMessageInCache testClock
        (cacheOf (mkPage [mkMessage ''1'' ''Original text'' ''2023-01-01T00:00:00.000Z'' Sent Customer]))
        (mkMessage ''1'' ''Updated text'' ''2023-01-02T00:00:00.000Z'' Sent Customer))
      = Some ((mkPage [mkMessage ''1'' ''Original text'' ''2023-01-01T00:00:00.000Z'' Sent Customer])
          \<lparr>edges :=
             [\<lparr>node = mkMessage ''1'' ''Updated text'' ''2023-01-02T00:00:00.000Z'' Sent Customer,
               cursor = ''cursor_1''\<rparr>]\<rparr>)"
proof (intro conjI)
  let ?old = "mkMessage ''1'' ''Existing message'' ''2023-01-01T00:00:00.000Z'' Sent Customer"
  let ?new = "mkMessage ''2'' ''New message'' ''2023-01-02T00:00:00.000Z'' Sent Customer"
  have r: "readQuery (cacheOf (mkPage [?old])) = Some (mkPage [?old])"
    by (simp add: concrete_defs)
  have "\<forall>e \<in> set (edges (mkPage [?old])). msgId (node e) \<noteq> msgId ?new"
    by (simp add: concrete_defs)
  with C1_upsert_by_freshness [OF r, of ?new testClock]
  show "readQuery (upsertMessageInCache testClock (cacheOf (mkPage [?old])) ?new)
    = Some ((mkPage [?old])
        \<lparr>edges := [\<lparr>node = ?old, cursor = ''cursor_1''\<rparr>, \<lparr>node = ?new, cursor = ''cursor_2''\<rparr>]\<rparr>)"
    by (simp add: concrete_defs)
next
  let ?old = "mkMessage ''1'' ''Original text'' ''2023-01-02T00:00:00.000Z'' Sent Customer"
  let ?new = "mkMessage ''1'' ''Stale text'' ''2023-01-01T00:00:00.000Z'' Sent Customer"
  have r: "readQuery (cacheOf (mkPage [?old])) = Some (mkPage [?old])"
    by (simp add: concrete_defs)
  have h: "0 < length (edges (mkPage [?old])) \<and> msgId (node (edges (mkPage [?old]) ! 0)) = msgId ?new
      \<and> (\<forall>j < 0. msgId (node (edges (mkPage [?old]) ! j)) \<noteq> msgId ?new)
      \<and> testClock (updatedAt ?new) = Some 1672531200000
      \<and> testClock (updatedAt (node (edges (mkPage [?old]) ! 0))) = Some 1672617600000"
    by (simp add: concrete_defs)
  from C1_upsert_by_freshness [OF r, of ?new testClock] h
  have "(1672531200000::int) < 1672617600000 \<longrightarrow>
          upsertMessageInCache testClock (cacheOf (mkPage [?old])) ?new = cacheOf (mkPage [?old])"
    by blast
  then show "upsertMessageInCache testClock (cacheOf (mkPage [?old])) ?new = cacheOf (mkPage [?old])"
    by simp
next
  let ?old = "mkMessage ''1'' ''Original text'' ''2023-01-01T00:00:00.000Z'' Sent Customer"
  let ?new = "mkMessage ''1'' ''Updated text'' ''2023-01-02T00:00:00.000Z'' Sent Customer"
  have r: "readQuery (cacheOf (mkPage [?old])) = Some (mkPage [?old])"
    by (simp add: concrete_defs)
  have h: "0 < length (edges (mkPage [?old])) \<and> msgId (node (edges (mkPage [?old]) ! 0)) = msgId ?new
      \<and> (\<forall>j < 0. msgId (node (edges (mkPage [?old]) ! j)) \<noteq> msgId ?new)
      \<and> testClock (updatedAt ?new) = Some 1672617600000
      \<and> testClock (updatedAt (node (edges (mkPage [?old]) ! 0))) = Some 1672531200000"
    by (simp add: concrete_defs)
  from C1_upsert_by_freshness [OF r, of ?new testClock] h
  have "(1672617600000::int) \<ge> 1672531200000 \<longrightarrow>
          readQuery (upsertMessageInCache testClock (cacheOf (mkPage [?old])) ?new) =
            Some ((mkPage [?old])\<lparr>edges := (edges (mkPage [?old]))
              [0 := \<lparr>node = ?new, cursor = cursor (edges (mkPage [?old]) ! 0)\<rparr>]\<rparr>)"
    by blast
  then show "readQuery (upsertMessageInCache testClock (cacheOf (mkPage [?old])) ?new)
      = Some ((mkPage [?old])\<lparr>edges := [\<lparr>node = ?new, cursor = ''cursor_1''\<rparr>]\<rparr>)"
    by (simp add: concrete_defs)
qed

section \<open>Merging pages\<close>

text \<open>
  C5. Forward merge. When the arguments carry an after-cursor, the merged page is the
  existing edges followed by the incoming edges, with the page info of the incoming page
  in all its fields; with no existing page the result is the incoming page itself.
\<close>

theorem C5_forward_merge:
  "(args = Some a \<and> after a = Some c \<and> c \<noteq> [] \<longrightarrow>
      messagesFieldPolicy_merge (Some existing) incoming args =
        \<lparr>edges = edges existing @ edges incoming, pageInfo = pageInfo incoming\<rparr>)
   \<and> messagesFieldPolicy_merge None incoming args = incoming"
  by (simp add: messagesFieldPolicy_merge_def truthy_def)

theorem C5_forward_merge_witness:
  "messagesFieldPolicy_merge
      (Some (mkPage [mkMessage ''0'' ''A0'' [] Read Customer, mkMessage ''1'' ''A1'' [] Read Admin]))
      (mkPage [mkMessage ''2'' ''B0'' [] Read Customer, mkMessage ''3'' ''B1'' [] Read Admin,
               mkMessage ''4'' ''B2'' [] Read Customer])
      (Some \<lparr>first = Some 20, after = Some ''cursor_1'', before = None\<rparr>)
    = \<lparr>edges = map newEdge
          [mkMessage ''0'' ''A0'' [] Read Customer, mkMessage ''1'' ''A1'' [] Read Admin,
           mkMessage ''2'' ''B0'' [] Read Customer, mkMessage ''3'' ''B1'' [] Read Admin,
           mkMessage ''4'' ''B2'' [] Read Customer],
       pageInfo = \<lparr>hasNextPage = False, hasPreviousPage = False,
                   startCursor = Some ''cursor_2'', endCursor = Some ''cursor_4''\<rparr>\<rparr>"
  using C5_forward_merge
    [of "Some \<lparr>first = Some 20, after = Some ''cursor_1'', before = None\<rparr>"
        "\<lparr>first = Some 20, after = Some ''cursor_1'', before = None\<rparr>" "''cursor_1''"
        "mkPage [mkMessage ''0'' ''A0'' [] Read Customer, mkMessage ''1'' ''A1'' [] Read Admin]"
        "mkPage [mkMessage ''2'' ''B0'' [] Read Customer, mkMessage ''3'' ''B1'' [] Read Admin,
                 mkMessage ''4'' ''B2'' [] Read Customer]"]
  by (simp add: mkPage_def mkMessage_def)

text \<open>
  C6. Backward merge. When the arguments carry a before-cursor (and no after-cursor, which
  is tested first), the merged page is the incoming edges followed by the existing edges;
  \<^verbatim>\<open>hasNextPage\<close> and \<^verbatim>\<open>endCursor\<close> are those of the existing page, \<^verbatim>\<open>hasPreviousPage\<close> and
  \<^verbatim>\<open>startCursor\<close> those of the incoming page.
\<close>

theorem C6_backward_merge:
  "args = Some a \<and> \<not> truthy (after a) \<and> before a = Some c \<and> c \<noteq> [] \<longrightarrow>
     messagesFieldPolicy_merge (Some existing) incoming args =
       \<lparr>edges = edges incoming @ edges existing,
        pageInfo = \<lparr>hasNextPage = hasNextPage (pageInfo existing),
                    hasPreviousPage = hasPreviousPage (pageInfo incoming),
                    startCursor = startCursor (pageInfo incoming),
                    endCursor = endCursor (pageInfo existing)\<rparr>\<rparr>"
  by (simp add: messagesFieldPolicy_merge_def truthy_def)

theorem C6_backward_merge_witness:
  "messagesFieldPolicy_merge
      (Some \<lparr>edges = map newEdge [mkMessage ''2'' ''A0'' [] Read Customer, mkMessage ''3'' ''A1'' [] Read Admin],
             pageInfo = \<lparr>hasNextPage = True, hasPreviousPage = True,
                         startCursor = Some ''cursor_2'', endCursor = Some ''cursor_3''\<rparr>\<rparr>)
      \<lparr>edges = map newEdge [mkMessage ''0'' ''C0'' [] Read Customer, mkMessage ''1'' ''C1'' [] Read Admin],
       pageInfo = \<lparr>hasNextPage = False, hasPreviousPage = False,
                   startCursor = Some ''cursor_0'', endCursor = Some ''cursor_1''\<rparr>\<rparr>
      (Some \<lparr>first = Some 20, after = None, before = Some ''cursor_2''\<rparr>)
    = \<lparr>edges = map newEdge
          [mkMessage ''0'' ''C0'' [] Read Customer, mkMessage ''1'' ''C1'' [] Read Admin,
           mkMessage ''2'' ''A0'' [] Read Customer, mkMessage ''3'' ''A1'' [] Read Admin],
       pageInfo = \<lparr>hasNextPage = True, hasPreviousPage = False,
                   startCursor = Some ''cursor_0'', endCursor = Some ''cursor_3''\<rparr>\<rparr>"
  using C6_backward_merge
    [of "Some \<lparr>first = Some 20, after = None, before = Some ''cursor_2''\<rparr>"
        "\<lparr>first = Some 20, after = None, before = Some ''cursor_2''\<rparr>" "''cursor_2''"
        "\<lparr>edges = map newEdge [mkMessage ''2'' ''A0'' [] Read Customer, mkMessage ''3'' ''A1'' [] Read Admin],
          pageInfo = \<lparr>hasNextPage = True, hasPreviousPage = True,
                      startCursor = Some ''cursor_2'', endCursor = Some ''cursor_3''\<rparr>\<rparr>"
        "\<lparr>edges = map newEdge [mkMessage ''0'' ''C0'' [] Read Customer, mkMessage ''1'' ''C1'' [] Read Admin],
          pageInfo = \<lparr>hasNextPage = False, hasPreviousPage = False,
                      startCursor = Some ''cursor_0'', endCursor = Some ''cursor_1''\<rparr>\<rparr>"]
  by (simp add: truthy_def)

text \<open>With neither cursor, and with an empty after-cursor, the incoming page replaces the
  existing one.\<close>

lemma merge_initial:
  "\<not> truthy (Option.bind args after) \<Longrightarrow> \<not> truthy (Option.bind args before) \<Longrightarrow>
     messagesFieldPolicy_merge existing incoming args = incoming"
  by (simp add: messagesFieldPolicy_merge_def split: option.splits)

section \<open>Submitting\<close>

text \<open>A text with something left after trimming does reach the mutation, with the trimmed
  text as its variable.\<close>

lemma sendMessage_calls_mutation:
  "trim txt \<noteq> [] \<Longrightarrow>
     mutations (snd (useSendMessage_sendMessage link txt w)) = mutations w @ [trim txt]"
  by (cases "link (trim txt) (clientCache w)"; cases "fst (link (trim txt) (clientCache w))")
     (simp_all add: useSendMessage_sendMessage_def sendMessageMutation_def)

text \<open>
  C9. When the trimmed text is empty, \<^verbatim>\<open>useSendMessage\<close>'s \<open>sendMessage\<close> resolves with
  \<^verbatim>\<open>null\<close> and leaves the world as it was: no call of the mutation is recorded and the
  cache is untouched. The \<open>sendMessage\<close> of \<^verbatim>\<open>useChat\<close> returns with the chat state and the
  world unchanged whatever send operation it was given, so it has not invoked it.
\<close>

theorem C9_empty_text_is_noop:
  assumes "trim txt = []"
  shows "useSendMessage_sendMessage link txt w = (Resolved None, w)
       \<and> useChat_sendMessage send txt (st, u) = (st, u)
       \<and> useChat_sendMessage (useSendMessage_sendMessage link) txt (st, w) = (st, w)"
  using assms by (simp add: useSendMessage_sendMessage_def useChat_sendMessage_def)

theorem C9_empty_text_is_noop_witness:
  "trim ''   '' = []
   \<and> useSendMessage_sendMessage (\<lambda>t c. (Rejected, c)) ''   ''
        \<lparr>clientCache = cacheOf (mkPage []), mutations = []\<rparr>
      = (Resolved None, \<lparr>clientCache = cacheOf (mkPage []), mutations = []\<rparr>)
   \<and> useChat_sendMessage (\<lambda>t (n::nat). (Resolved (), Suc n)) ''   '' (initialChatState, 0)
      = (initialChatState, 0)
   \<and> useChat_sendMessage (useSendMessage_sendMessage (\<lambda>t c. (Rejected, c))) ''   ''
        (initialChatState, \<lparr>clientCache = cacheOf (mkPage []), mutations = []\<rparr>)
      = (initialChatState, \<lparr>clientCache = cacheOf (mkPage []), mutations = []\<rparr>)"
proof -
  have t: "trim ''   '' = []"
    by (simp add: trim_def isWhiteSpace_def)
  from t C9_empty_text_is_noop [OF t, of "\<lambda>t c. (Rejected, c)"
      "\<lparr>clientCache = cacheOf (mkPage []), mutations = []\<rparr>"
      "\<lambda>t (n::nat). (Resolved (), Suc n)" initialChatState 0]
  show ?thesis by simp
qed

section \<open>The counter of new messages\<close>

text \<open>What the code does with the counter: a created-event adds one exactly when the
  viewport is not at the bottom, whoever sent the message, and reaching the bottom leaves
  the counter at 0.\<close>

lemma onMessageAdded_count:
  "newMessagesCount (onMessageAdded message st) =
     (if isAtBottom st then newMessagesCount st else newMessagesCount st + 1)"
  by (simp add: onMessageAdded_def)

lemma handleAtBottomChange_reset:
  "newMessagesCount (handleAtBottomChange True st) = 0
   \<and> isAtBottom (handleAtBottomChange b st) = b
   \<and> newMessagesCount (handleAtBottomChange False st) = newMessagesCount st"
  by (simp add: handleAtBottomChange_def Let_def)

text \<open>
  C7. The claim that a created-event of the local actor never increments the counter
  fails on the code: with the viewport away from the bottom, a created-event whose sender
  is \<open>Admin\<close> takes the counter from 0 to 1, also when it arrives through the
  subscription handler for a message that is not yet in the cache.
\<close>

theorem C7_admin_created_event_increments:
  "newMessagesCount
     (onMessageAdded (mkMessage ''3'' ''Admin message'' ''2023-01-01T00:00:00.000Z'' Sent Admin)
        (handleAtBottomChange False initialChatState)) = 1
   \<and> newMessagesCount
       (snd (handleNewMessage (Some onMessageAdded)
               (mkMessage ''3'' ''Admin message'' ''2023-01-01T00:00:00.000Z'' Sent Admin)
               (cacheOf (mkPage []), handleAtBottomChange False initialChatState))) = 1"
  by (simp add: onMessageAdded_def handleAtBottomChange_def initialChatState_def
      handleNewMessage_def concrete_defs)

section \<open>The two subscription streams\<close>







section \<open>Idempotence of the upsert\<close>

lemma date_lt_irrefl [simp]: "\<not> date_lt x x"
  by (simp add: date_lt_def split: option.splits)

lemma findIndex_snoc_new:
  "findIndex P xs = None \<Longrightarrow> P x \<Longrightarrow> findIndex P (xs @ [x]) = Some (length xs)"
  by (induction xs) (auto split: if_splits)

lemma findIndex_update_hit:
  assumes "findIndex P xs = Some i" and "P y"
  shows "findIndex P (xs[i := y]) = Some i"
proof -
  from findIndex_Some_first [OF assms(1)]
  have i: "i < length xs" and before: "\<forall>j < i. \<not> P (xs ! j)" by simp_all
  show ?thesis
  proof (rule findIndex_first_Some)
    show "i < length (xs[i := y])" using i by simp
    show "P (xs[i := y] ! i)" using i assms(2) by simp
    show "\<forall>j < i. \<not> P (xs[i := y] ! j)" using before by simp
  qed
qed

lemma upsert_twice:
  "readQuery (upsertMessageInCache D (upsertMessageInCache D c m) m)
     = readQuery (upsertMessageInCache D c m)"
proof (cases "readQuery c")
  case None
  then show ?thesis by (simp add: upsertMessageInCache_def)
next
  case (Some page)
  let ?P = "\<lambda>e. msgId (node e) = msgId m"
  show ?thesis
  proof (cases "findIndex ?P (edges page)")
    case None
    then have absent: "\<forall>e \<in> set (edges page). msgId (node e) \<noteq> msgId m"
      by (simp add: findIndex_None_iff)
    let ?page1 = "page\<lparr>edges := edges page @ [newEdge m]\<rparr>"
    have one: "upsertMessageInCache D c m = writeQuery c ?page1"
      by (rule upsert_absent [OF Some absent])
    have r1: "readQuery (writeQuery c ?page1) = Some ?page1" by simp
    have "?P (newEdge m)" by (simp add: newEdge_def)
    with None have fi: "findIndex ?P (edges ?page1) = Some (length (edges page))"
      by (simp add: findIndex_snoc_new)
    have fresh: "\<not> date_lt (D (updatedAt m))
        (D (updatedAt (node (edges ?page1 ! length (edges page)))))"
      by (simp add: newEdge_def)
    have "readQuery (upsertMessageInCache D (writeQuery c ?page1) m) =
            Some (?page1\<lparr>edges := (edges ?page1)
              [length (edges page) := (edges ?page1 ! length (edges page))\<lparr>node := m\<rparr>]\<rparr>)"
      using upsert_fresh [OF r1 fi fresh] by simp
    also have "\<dots> = Some ?page1"
      by (simp add: newEdge_def)
    finally show ?thesis using one by simp
  next
    case (Some i)
    note fi = this
    show ?thesis
    proof (cases "date_lt (D (updatedAt m)) (D (updatedAt (node (edges page ! i))))")
      case True
      from upsert_stale [OF \<open>readQuery c = Some page\<close> fi True]
      show ?thesis by simp
    next
      case False
      let ?page1 = "page\<lparr>edges := (edges page)[i := (edges page ! i)\<lparr>node := m\<rparr>]\<rparr>"
      have one: "upsertMessageInCache D c m = writeQuery c ?page1"
        by (rule upsert_fresh [OF \<open>readQuery c = Some page\<close> fi False])
      have r1: "readQuery (writeQuery c ?page1) = Some ?page1" by simp
      from findIndex_Some_first [OF fi] have i: "i < length (edges page)" by simp
      have fi1: "findIndex ?P (edges ?page1) = Some i"
        using findIndex_update_hit [OF fi, of "(edges page ! i)\<lparr>node := m\<rparr>"] by simp
      have fresh: "\<not> date_lt (D (updatedAt m)) (D (updatedAt (node (edges ?page1 ! i))))"
        using i by simp
      have "readQuery (upsertMessageInCache D (writeQuery c ?page1) m) =
              Some (?page1\<lparr>edges := (edges ?page1)[i := (edges ?page1 ! i)\<lparr>node := m\<rparr>]\<rparr>)"
        using upsert_fresh [OF r1 fi1 fresh] by simp
      also have "\<dots> = Some ?page1"
        using i by simp
      finally show ?thesis using one by simp
    qed
  qed
qed

text \<open>
  C3. Upserting the same message twice leaves the store (what \<open>readQuery\<close> returns) the same
  as upserting it once. When the first edge with the incoming id holds a node whose
  \<^verbatim>\<open>updatedAt\<close> has the same time value as the incoming one, the incoming message replaces
  the stored node, in place: a tie goes to the incoming message.
\<close>

theorem C3_upsert_idempotent:
  "readQuery (upsertMessageInCache D (upsertMessageInCache D c m) m)
     = readQuery (upsertMessageInCache D c m)
   \<and> (readQuery c = Some page \<and> i < length (edges page)
        \<and> msgId (node (edges page ! i)) = msgId m
        \<and> (\<forall>j < i. msgId (node (edges page ! j)) \<noteq> msgId m)
        \<and> D (updatedAt m) = D (updatedAt (node (edges page ! i)))
      \<longrightarrow> readQuery (upsertMessageInCache D c m) =
            Some (page\<lparr>edges := (edges page)[i := \<lparr>node = m, cursor = cursor (edges page ! i)\<rparr>]\<rparr>))"
proof (intro conjI impI)
  show "readQuery (upsertMessageInCache D (upsertMessageInCache D c m) m)
     = readQuery (upsertMessageInCache D c m)"
    by (rule upsert_twice)
next
  assume h: "readQuery c = Some page \<and> i < length (edges page)
        \<and> msgId (node (edges page ! i)) = msgId m
        \<and> (\<forall>j < i. msgId (node (edges page ! j)) \<noteq> msgId m)
        \<and> D (updatedAt m) = D (updatedAt (node (edges page ! i)))"
  then have r: "readQuery c = Some page" by simp
  from h have fi: "findIndex (\<lambda>e. msgId (node e) = msgId m) (edges page) = Some i"
    by (intro findIndex_first_Some) simp_all
  from h have tie: "\<not> date_lt (D (updatedAt m)) (D (updatedAt (node (edges page ! i))))"
    by simp
  have "(edges page ! i)\<lparr>node := m\<rparr> = \<lparr>node = m, cursor = cursor (edges page ! i)\<rparr>"
    by simp
  with upsert_fresh [OF r fi tie]
  show "readQuery (upsertMessageInCache D c m) =
          Some (page\<lparr>edges := (edges page)[i := \<lparr>node = m, cursor = cursor (edges page ! i)\<rparr>]\<rparr>)"
    by simp
qed

theorem C3_upsert_idempotent_witness:
  "readQuery (upsertMessageInCache testClock (upsertMessageInCache testClock
      (cacheOf (mkPage [mkMessage ''1'' ''Original text'' ''2023-01-02T00:00:00.000Z'' Sending Admin]))
      (mkMessage ''1'' ''Original text'' ''2023-01-02T00:00:00.000Z'' Sent Admin))
      (mkMessage ''1'' ''Original text'' ''2023-01-02T00:00:00.000Z'' Sent Admin))
    = readQuery (upsertMessageInCache testClock
      (cacheOf (mkPage [mkMessage ''1'' ''Original text'' ''2023-01-02T00:00:00.000Z'' Sending Admin]))
      (mkMessage ''1'' ''Original text'' ''2023-01-02T00:00:00.000Z'' Sent Admin))
   \<and> readQuery (upsertMessageInCache testClock
      (cacheOf (mkPage [mkMessage ''1'' ''Original text'' ''2023-01-02T00:00:00.000Z'' Sending Admin]))
      (mkMessage ''1'' ''Original text'' ''2023-01-02T00:00:00.000Z'' Sent Admin))
    = Some (mkPage [mkMessage ''1'' ''Original text'' ''2023-01-02T00:00:00.000Z'' Sent Admin])"
proof -
  let ?old = "mkMessage ''1'' ''Original text'' ''2023-01-02T00:00:00.000Z'' Sending Admin"
  let ?new = "mkMessage ''1'' ''Original text'' ''2023-01-02T00:00:00.000Z'' Sent Admin"
  have h: "readQuery (cacheOf (mkPage [?old])) = Some (mkPage [?old])
      \<and> 0 < length (edges (mkPage [?old]))
      \<and> msgId (node (edges (mkPage [?old]) ! 0)) = msgId ?new
      \<and> (\<forall>j < 0. msgId (node (edges (mkPage [?old]) ! j)) \<noteq> msgId ?new)
      \<and> testClock (updatedAt ?new) = testClock (updatedAt (node (edges (mkPage [?old]) ! 0)))"
    by (simp add: concrete_defs)
  from C3_upsert_idempotent [of testClock "cacheOf (mkPage [?old])" ?new "mkPage [?old]" 0] h
  have "readQuery (upsertMessageInCache testClock (upsertMessageInCache testClock
            (cacheOf (mkPage [?old])) ?new) ?new)
          = readQuery (upsertMessageInCache testClock (cacheOf (mkPage [?old])) ?new)"
    and "readQuery (upsertMessageInCache testClock (cacheOf (mkPage [?old])) ?new) =
          Some ((mkPage [?old])\<lparr>edges := (edges (mkPage [?old]))
            [0 := \<lparr>node = ?new, cursor = cursor (edges (mkPage [?old]) ! 0)\<rparr>]\<rparr>)"
    by blast+
  then show ?thesis
    by (simp add: concrete_defs)
qed

section \<open>Frame properties\<close>

lemma filter_same_length:
  "length (filter P xs) = length xs \<Longrightarrow> filter P xs = xs"
proof (induction xs)
  case Nil
  then show ?case by simp
next
  case (Cons x xs)
  have le: "length (filter P xs) \<le> length xs" by simp
  show ?case
  proof (cases "P x")
    case True
    with Cons show ?thesis by simp
  next
    case False
    with Cons.prems le show ?thesis by simp
  qed
qed

lemma filter_update_outside:
  "\<not> P (xs ! i) \<Longrightarrow> \<not> P y \<Longrightarrow> filter P (xs[i := y]) = filter P xs"
proof (induction xs arbitrary: i)
  case Nil
  then show ?case by simp
next
  case (Cons x xs)
  then show ?case by (cases i) simp_all
qed

lemma removeTemp_read:
  assumes "readQuery c = Some page"
  shows "readQuery (removeTempMessagesByText c t) =
           Some (page\<lparr>edges := filter (\<lambda>e. \<not> isTempMatch t e) (edges page)\<rparr>)"
proof (cases "length (filter (\<lambda>e. \<not> isTempMatch t e) (edges page)) = length (edges page)")
  case True
  then have "filter (\<lambda>e. \<not> isTempMatch t e) (edges page) = edges page"
    by (rule filter_same_length)
  with assms True show ?thesis
    by (simp add: removeTempMessagesByText_def)
next
  case False
  with assms show ?thesis
    by (simp add: removeTempMessagesByText_def)
qed

lemma removeTemp_no_match:
  assumes "readQuery c = Some page" and "\<forall>e \<in> set (edges page). \<not> isTempMatch t e"
  shows "removeTempMessagesByText c t = c"
  using assms by (simp add: removeTempMessagesByText_def)

lemma upsert_frame:
  assumes "readQuery c = Some page"
  shows "\<exists>page'. readQuery (upsertMessageInCache D c m) = Some page'
           \<and> pageInfo page' = pageInfo page
           \<and> filter (\<lambda>e. msgId (node e) \<noteq> msgId m) (edges page')
               = filter (\<lambda>e. msgId (node e) \<noteq> msgId m) (edges page)
           \<and> (edges page' = edges page
              \<or> edges page' = edges page @ [newEdge m]
              \<or> (\<exists>i < length (edges page). msgId (node (edges page ! i)) = msgId m
                    \<and> edges page' = (edges page)[i := (edges page ! i)\<lparr>node := m\<rparr>]))"
proof (cases "findIndex (\<lambda>e. msgId (node e) = msgId m) (edges page)")
  case None
  then have "\<forall>e \<in> set (edges page). msgId (node e) \<noteq> msgId m"
    by (simp add: findIndex_None_iff)
  from upsert_absent [OF assms this]
  have "readQuery (upsertMessageInCache D c m) = Some (page\<lparr>edges := edges page @ [newEdge m]\<rparr>)"
    by simp
  then show ?thesis by (simp add: newEdge_def)
next
  case (Some i)
  from findIndex_Some_first [OF Some]
  have i: "i < length (edges page)" "msgId (node (edges page ! i)) = msgId m" by simp_all
  show ?thesis
  proof (cases "date_lt (D (updatedAt m)) (D (updatedAt (node (edges page ! i))))")
    case True
    from upsert_stale [OF assms Some True] assms show ?thesis by simp
  next
    case False
    let ?es = "(edges page)[i := (edges page ! i)\<lparr>node := m\<rparr>]"
    from upsert_fresh [OF assms Some False]
    have r: "readQuery (upsertMessageInCache D c m) = Some (page\<lparr>edges := ?es\<rparr>)"
      by simp
    have f: "filter (\<lambda>e. msgId (node e) \<noteq> msgId m) ?es
               = filter (\<lambda>e. msgId (node e) \<noteq> msgId m) (edges page)"
      using i(2) by (intro filter_update_outside) simp_all
    from i have "\<exists>k < length (edges page). msgId (node (edges page ! k)) = msgId m
                    \<and> ?es = (edges page)[k := (edges page ! k)\<lparr>node := m\<rparr>]"
      by blast
    with r f show ?thesis by simp
  qed
qed

text \<open>
  C10. Frame of the two single-record operations. On a cache without a page both return
  the cache as it is. On a cache with a page, the upsert keeps the page info and the
  edges whose id differs from the incoming id, in their order, and the new edge list is
  the old one, or the old one with one edge appended, or the old one with the node of one
  edge of the incoming id replaced. The eviction keeps the page info and leaves exactly
  the edges that do not match, in their order; when no edge matches it returns the cache
  as it is, without a write.
\<close>

theorem C10_frame:
  "(readQuery c = None \<longrightarrow>
      upsertMessageInCache D c m = c \<and> removeTempMessagesByText c t = c)
   \<and> (readQuery c = Some page \<longrightarrow>
      (\<exists>page'. readQuery (upsertMessageInCache D c m) = Some page'
           \<and> pageInfo page' = pageInfo page
           \<and> filter (\<lambda>e. msgId (node e) \<noteq> msgId m) (edges page')
               = filter (\<lambda>e. msgId (node e) \<noteq> msgId m) (edges page)
           \<and> (edges page' = edges page
              \<or> edges page' = edges page @ [newEdge m]
              \<or> (\<exists>i < length (edges page). msgId (node (edges page ! i)) = msgId m
                    \<and> edges page' = (edges page)[i := (edges page ! i)\<lparr>node := m\<rparr>])))
      \<and> (\<exists>page'. readQuery (removeTempMessagesByText c t) = Some page'
           \<and> pageInfo page' = pageInfo page
           \<and> edges page' = filter (\<lambda>e. \<not> isTempMatch t e) (edges page))
      \<and> ((\<forall>e \<in> set (edges page). \<not> isTempMatch t e) \<longrightarrow>
            removeTempMessagesByText c t = c
            \<and> writes (removeTempMessagesByText c t) = writes c))"
proof (intro conjI impI)
  assume "readQuery c = None"
  then show "upsertMessageInCache D c m = c" "removeTempMessagesByText c t = c"
    by (simp_all add: upsertMessageInCache_def removeTempMessagesByText_def)
next
  assume r: "readQuery c = Some page"
  show "\<exists>page'. readQuery (upsertMessageInCache D c m) = Some page'
           \<and> pageInfo page' = pageInfo page
           \<and> filter (\<lambda>e. msgId (node e) \<noteq> msgId m) (edges page')
               = filter (\<lambda>e. msgId (node e) \<noteq> msgId m) (edges page)
           \<and> (edges page' = edges page
              \<or> edges page' = edges page @ [newEdge m]
              \<or> (\<exists>i < length (edges page). msgId (node (edges page ! i)) = msgId m
                    \<and> edges page' = (edges page)[i := (edges page ! i)\<lparr>node := m\<rparr>]))"
    by (rule upsert_frame [OF r])
  show "\<exists>page'. readQuery (removeTempMessagesByText c t) = Some page'
           \<and> pageInfo page' = pageInfo page
           \<and> edges page' = filter (\<lambda>e. \<not> isTempMatch t e) (edges page)"
    using removeTemp_read [OF r, of t] by simp
  {
    assume "\<forall>e \<in> set (edges page). \<not> isTempMatch t e"
    from removeTemp_no_match [OF r this]
    show "removeTempMessagesByText c t = c"
      "writes (removeTempMessagesByText c t) = writes c"
      by simp_all
  }
qed

theorem C10_frame_witness:
  "upsertMessageInCache testClock \<lparr>queryData = None, writes = []\<rparr> frameUpdate
      = \<lparr>queryData = None, writes = []\<rparr>
   \<and> removeTempMessagesByText \<lparr>queryData = None, writes = []\<rparr> ''Non-existent text''
      = \<lparr>queryData = None, writes = []\<rparr>
   \<and> (\<exists>page'. readQuery (upsertMessageInCache testClock frameStore frameUpdate) = Some page'
         \<and> pageInfo page' = pageInfo framePage
         \<and> filter (\<lambda>e. msgId (node e) \<noteq> msgId frameUpdate) (edges page')
             = filter (\<lambda>e. msgId (node e) \<noteq> msgId frameUpdate) (edges framePage))
   \<and> (\<exists>page'. readQuery (removeTempMessagesByText frameStore ''Non-existent text'') = Some page'
         \<and> pageInfo page' = pageInfo framePage
         \<and> edges page' = filter (\<lambda>e. \<not> isTempMatch ''Non-existent text'' e)
                             (edges framePage))
   \<and> removeTempMessagesByText frameStore ''Non-existent text'' = frameStore
   \<and> writes (removeTempMessagesByText frameStore ''Non-existent text'') = writes frameStore"
proof -
  let ?empty = "\<lparr>queryData = None, writes = []\<rparr>"
  let ?page = framePage
  have e: "readQuery ?empty = None" by (simp add: readQuery_def)
  have r: "readQuery frameStore = Some ?page"
    by (simp add: frameStore_def cacheOf_def readQuery_def)
  have nomatch: "\<forall>e \<in> set (edges ?page). \<not> isTempMatch ''Non-existent text'' e"
    by (simp add: isTempMatch_def framePage_def concrete_defs)
  from C10_frame [of ?empty testClock frameUpdate "''Non-existent text''" ?page] e
  have 1: "upsertMessageInCache testClock ?empty frameUpdate = ?empty"
    and 2: "removeTempMessagesByText ?empty ''Non-existent text'' = ?empty"
    by blast+
  from C10_frame [of frameStore testClock frameUpdate "''Non-existent text''" ?page] r nomatch
  have 3: "\<exists>page'. readQuery (upsertMessageInCache testClock frameStore frameUpdate) = Some page'
         \<and> pageInfo page' = pageInfo ?page
         \<and> filter (\<lambda>e. msgId (node e) \<noteq> msgId frameUpdate) (edges page')
             = filter (\<lambda>e. msgId (node e) \<noteq> msgId frameUpdate) (edges ?page)"
    and 4: "\<exists>page'. readQuery (removeTempMessagesByText frameStore ''Non-existent text'') = Some page'
         \<and> pageInfo page' = pageInfo ?page
         \<and> edges page' = filter (\<lambda>e. \<not> isTempMatch ''Non-existent text'' e) (edges ?page)"
    and 5: "removeTempMessagesByText frameStore ''Non-existent text'' = frameStore"
    and 6: "writes (removeTempMessagesByText frameStore ''Non-existent text'') = writes frameStore"
    by blast+
  from 1 2 3 4 5 6 show ?thesis by simp
qed

section \<open>Eviction of temporary records\<close>

lemma newEdge_no_temp:
  "\<not> startsWith (msgId m) ''temp-'' \<Longrightarrow> \<not> isTempMatch t (newEdge m)"
  by (simp add: isTempMatch_def newEdge_def)

lemma renode_no_temp:
  "\<not> startsWith (msgId m) ''temp-'' \<Longrightarrow> \<not> isTempMatch t (e\<lparr>node := m\<rparr>)"
  by (simp add: isTempMatch_def)

lemma Ball_list_update:
  assumes "\<forall>e \<in> set xs. Q e" and "Q y"
  shows "\<forall>e \<in> set (xs[i := y]). Q e"
proof
  fix e assume "e \<in> set (xs[i := y])"
  with set_update_subset_insert [of xs i y] have "e = y \<or> e \<in> set xs" by blast
  with assms show "Q e" by blast
qed

lemma Ball_renode_map:
  assumes "\<forall>e \<in> set xs. Q e" and "\<And>e. Q (e\<lparr>node := m\<rparr>)"
  shows "\<forall>e \<in> set (map (\<lambda>e. if C e then e\<lparr>node := m\<rparr> else e) xs). Q e"
  using assms by (induction xs) simp_all

lemma evict_then_upsert_no_temp:
  assumes r: "readQuery c = Some page" and m: "\<not> startsWith (msgId m) ''temp-''"
  shows "\<forall>e \<in> set (cachedEdges (upsertMessageInCache D (removeTempMessagesByText c t) m)).
           \<not> isTempMatch t e"
proof -
  define es where "es = filter (\<lambda>e. \<not> isTempMatch t e) (edges page)"
  define Q where "Q = (\<lambda>e. \<not> isTempMatch t e)"
  have r1: "readQuery (removeTempMessagesByText c t) = Some (page\<lparr>edges := es\<rparr>)"
    unfolding es_def by (rule removeTemp_read [OF r])
  have clean: "\<forall>e \<in> set es. Q e" by (simp add: es_def Q_def)
  have qn: "Q (newEdge m)" and qr: "\<And>e. Q (e\<lparr>node := m\<rparr>)"
    using newEdge_no_temp [OF m] renode_no_temp [OF m] by (simp_all add: Q_def)
  from upsert_frame [OF r1, of D m] obtain page' where
    p: "readQuery (upsertMessageInCache D (removeTempMessagesByText c t) m) = Some page'"
    and shape: "edges page' = es \<or> edges page' = es @ [newEdge m]
       \<or> (\<exists>i < length es. msgId (node (es ! i)) = msgId m
             \<and> edges page' = es[i := (es ! i)\<lparr>node := m\<rparr>])"
    by auto
  from shape consider "edges page' = es" | "edges page' = es @ [newEdge m]"
      | i where "edges page' = es[i := (es ! i)\<lparr>node := m\<rparr>]" by blast
  then have "\<forall>e \<in> set (edges page'). Q e"
  proof cases
    case 1
    with clean show ?thesis by simp
  next
    case 2
    with clean qn show ?thesis by simp
  next
    case 3
    from Ball_list_update [OF clean qr, of i "es ! i"] 3 show ?thesis by simp
  qed
  with p show ?thesis by (simp add: cachedEdges_def Q_def)
qed

lemma finalEdges_filter:
  "finalEdges D es m =
     (let kept = filter (\<lambda>e. \<not> isTempMatch (msgText m) e) es in
      if \<not> list_ex (\<lambda>e. msgId (node e) = msgId m) kept then kept @ [newEdge m]
      else map (\<lambda>e. if msgId (node e) = msgId m
                        \<and> date_ge (D (updatedAt m)) (D (updatedAt (node e)))
                     then e\<lparr>node := m\<rparr> else e) kept)"
  by (simp add: finalEdges_def Let_def isTempMatch_def)

lemma update_no_temp:
  assumes r: "readQuery c = Some page" and m: "\<not> startsWith (msgId m) ''temp-''"
  shows "\<forall>e \<in> set (cachedEdges (useSendMessage_update D c (Some m))).
           \<not> isTempMatch (msgText m) e"
proof -
  have "\<forall>e \<in> set (finalEdges D (edges page) m). \<not> isTempMatch (msgText m) e"
  proof (cases "list_ex (\<lambda>e. msgId (node e) = msgId m)
      (filter (\<lambda>e. \<not> isTempMatch (msgText m) e) (edges page))")
    case False
    then have "finalEdges D (edges page) m
        = filter (\<lambda>e. \<not> isTempMatch (msgText m) e) (edges page) @ [newEdge m]"
      by (simp add: finalEdges_filter)
    with newEdge_no_temp [OF m] show ?thesis by simp
  next
    case True
    then have fe: "finalEdges D (edges page) m
        = map (\<lambda>e. if msgId (node e) = msgId m
                        \<and> date_ge (D (updatedAt m)) (D (updatedAt (node e)))
                     then e\<lparr>node := m\<rparr> else e)
            (filter (\<lambda>e. \<not> isTempMatch (msgText m) e) (edges page))"
      by (simp add: finalEdges_filter)
    have kept: "\<forall>e \<in> set (filter (\<lambda>e. \<not> isTempMatch (msgText m) e) (edges page)).
        \<not> isTempMatch (msgText m) e" by simp
    have "\<forall>e \<in> set (map (\<lambda>e. if msgId (node e) = msgId m
                        \<and> date_ge (D (updatedAt m)) (D (updatedAt (node e)))
                     then e\<lparr>node := m\<rparr> else e)
            (filter (\<lambda>e. \<not> isTempMatch (msgText m) e) (edges page))).
        \<not> isTempMatch (msgText m) e"
      by (rule Ball_renode_map [OF kept]) (rule renode_no_temp [OF m])
    then show ?thesis by (simp only: fe)
  qed
  with r show ?thesis
    by (simp add: useSendMessage_update_def cachedEdges_def)
qed

lemma evict_then_upsert_new:
  assumes r: "readQuery c = Some page"
    and new: "\<forall>e \<in> set (edges page). msgId (node e) \<noteq> msgId m"
  shows "cachedEdges (upsertMessageInCache D (removeTempMessagesByText c t) m)
           = filter (\<lambda>e. \<not> isTempMatch t e) (edges page) @ [newEdge m]"
proof -
  let ?page1 = "page\<lparr>edges := filter (\<lambda>e. \<not> isTempMatch t e) (edges page)\<rparr>"
  have r1: "readQuery (removeTempMessagesByText c t) = Some ?page1"
    by (rule removeTemp_read [OF r])
  from new have "\<forall>e \<in> set (edges ?page1). msgId (node e) \<noteq> msgId m" by simp
  from upsert_absent [OF r1 this] show ?thesis
    by (simp add: cachedEdges_def)
qed

lemma update_new:
  assumes r: "readQuery c = Some page"
    and new: "\<forall>e \<in> set (edges page). msgId (node e) \<noteq> msgId m"
  shows "cachedEdges (useSendMessage_update D c (Some m))
           = filter (\<lambda>e. \<not> isTempMatch (msgText m) e) (edges page) @ [newEdge m]"
proof -
  from new have "\<not> list_ex (\<lambda>e. msgId (node e) = msgId m)
      (filter (\<lambda>e. \<not> isTempMatch (msgText m) e) (edges page))"
    by (simp add: list_ex_iff)
  then have "finalEdges D (edges page) m
      = filter (\<lambda>e. \<not> isTempMatch (msgText m) e) (edges page) @ [newEdge m]"
    by (simp add: finalEdges_filter)
  with r show ?thesis
    by (simp add: useSendMessage_update_def cachedEdges_def)
qed

lemma date_lt_not_ge: "date_lt a b \<Longrightarrow> \<not> date_ge a b"
  by (auto simp: date_lt_def date_ge_def split: option.splits)

lemma filter_filter_length_le:
  "length (filter P (filter Q xs)) \<le> length (filter P xs)"
  by (induction xs) simp_all

lemma unique_match:
  assumes "length (filter P xs) \<le> 1" and "x \<in> set xs" and "P x" and "y \<in> set xs" and "P y"
  shows "x = y"
proof (cases "filter P xs")
  case Nil
  with assms(2,3) show ?thesis by (simp add: filter_empty_conv)
next
  case (Cons z zs)
  with assms(1) have "filter P xs = [z]" by simp
  moreover from assms have "x \<in> set (filter P xs)" "y \<in> set (filter P xs)" by simp_all
  ultimately show ?thesis by simp
qed

lemma one_with_text:
  assumes "length (filter P xs) = 1"
    and "\<forall>e \<in> set xs. P e \<longrightarrow> T (g e) \<and> ident (g e) = c"
    and "\<forall>e \<in> set xs. \<not> P e \<longrightarrow> \<not> T (g e)"
  shows "map ident (filter T (map g xs)) = [c]"
  using assms
proof (induction xs)
  case Nil
  then show ?case by simp
next
  case (Cons x xs)
  show ?case
  proof (cases "P x")
    case True
    with Cons.prems(1) have "filter P xs = []" by simp
    then have "\<forall>e \<in> set xs. \<not> P e" by (simp add: filter_empty_conv)
    with Cons.prems(3) have "filter T (map g xs) = []" by (simp add: filter_empty_conv)
    with True Cons.prems(2) show ?thesis by simp
  next
    case False
    with Cons.prems(1) have "length (filter P xs) = 1" by simp
    moreover from Cons.prems(2) have "\<forall>e \<in> set xs. P e \<longrightarrow> T (g e) \<and> ident (g e) = c" by simp
    moreover from Cons.prems(3) have "\<forall>e \<in> set xs. \<not> P e \<longrightarrow> \<not> T (g e)" by simp
    ultimately have "map ident (filter T (map g xs)) = [c]" by (rule Cons.IH)
    moreover from False Cons.prems(3) have "\<not> T (g x)" by simp
    ultimately show ?thesis by simp
  qed
qed

lemma update_first_as_map:
  "findIndex P xs = Some k \<Longrightarrow> length (filter P xs) \<le> 1 \<Longrightarrow>
     xs[k := f (xs ! k)] = map (\<lambda>e. if P e then f e else e) xs"
proof (induction xs arbitrary: k)
  case Nil
  then show ?case by simp
next
  case (Cons x xs)
  show ?case
  proof (cases "P x")
    case True
    with Cons.prems(1) have k: "k = 0" by simp
    from True Cons.prems(2) have "filter P xs = []" by simp
    then have "\<forall>e \<in> set xs. \<not> P e" by (simp add: filter_empty_conv)
    then have "map (\<lambda>e. if P e then f e else e) xs = xs"
      by (induction xs) simp_all
    with True k show ?thesis by simp
  next
    case False
    with Cons.prems(1) obtain j where j: "findIndex P xs = Some j" "k = Suc j" by auto
    from False Cons.prems(2) have "length (filter P xs) \<le> 1" by simp
    from Cons.IH [OF j(1) this] False j(2) show ?thesis by simp
  qed
qed

lemma found_gives_one:
  assumes "findIndex P xs = Some k" and "length (filter P xs) \<le> 1"
  shows "length (filter P xs) = 1"
proof -
  from findIndex_Some_first [OF assms(1)] have "xs ! k \<in> set (filter P xs)" by simp
  then have "filter P xs \<noteq> []" by (metis empty_iff empty_set)
  then have "length (filter P xs) \<noteq> 0" by simp
  with assms(2) show ?thesis by linarith
qed

lemma evict_then_upsert_one:
  assumes r: "readQuery c = Some page"
    and t: "msgText m = t"
    and h1: "\<forall>e \<in> set (edges page). msgText (node e) = t
               \<and> \<not> startsWith (msgId (node e)) ''temp-'' \<longrightarrow> msgId (node e) = msgId m"
    and h2: "length (filter (\<lambda>e. msgId (node e) = msgId m) (edges page)) \<le> 1"
    and h3: "\<forall>e \<in> set (edges page). msgId (node e) = msgId m \<longrightarrow>
               msgText (node e) = t \<or> date_ge (D (updatedAt m)) (D (updatedAt (node e)))"
  shows "map (\<lambda>e. msgId (node e)) (filter (\<lambda>e. msgText (node e) = t)
           (cachedEdges (upsertMessageInCache D (removeTempMessagesByText c t) m))) = [msgId m]"
proof -
  define es where "es = filter (\<lambda>e. \<not> isTempMatch t e) (edges page)"
  define P where "P = (\<lambda>e::MessageEdge. msgId (node e) = msgId m)"
  define T where "T = (\<lambda>e::MessageEdge. msgText (node e) = t)"
  have r1: "readQuery (removeTempMessagesByText c t) = Some (page\<lparr>edges := es\<rparr>)"
    unfolding es_def by (rule removeTemp_read [OF r])
  have sub: "set es \<subseteq> set (edges page)" by (auto simp: es_def)
  have tp: "\<forall>e \<in> set es. \<not> P e \<longrightarrow> \<not> T e"
    using h1 by (auto simp: es_def P_def T_def isTempMatch_def)
  have le1: "length (filter P es) \<le> 1"
    using filter_filter_length_le [of P "\<lambda>e. \<not> isTempMatch t e" "edges page"] h2
    by (simp add: es_def P_def)
  have h3': "\<forall>e \<in> set es. P e \<longrightarrow> T e \<or> date_ge (D (updatedAt m)) (D (updatedAt (node e)))"
    using h3 sub by (auto simp: P_def T_def)
  have tm: "\<And>e. T (e\<lparr>node := m\<rparr>) \<and> msgId (node (e\<lparr>node := m\<rparr>)) = msgId m"
    using t by (simp add: T_def)
  show ?thesis
  proof (cases "findIndex P es")
    case None
    then have absent: "\<forall>e \<in> set (edges (page\<lparr>edges := es\<rparr>)). msgId (node e) \<noteq> msgId m"
      by (simp add: findIndex_None_iff P_def)
    from upsert_absent [OF r1 absent]
    have ce: "cachedEdges (upsertMessageInCache D (removeTempMessagesByText c t) m) = es @ [newEdge m]"
      by (simp add: cachedEdges_def)
    from None have "\<forall>e \<in> set es. \<not> P e" by (simp add: findIndex_None_iff)
    with tp have "filter T es = []" by (simp add: filter_empty_conv)
    moreover have "T (newEdge m)" using t by (simp add: T_def newEdge_def)
    ultimately have "map (\<lambda>e. msgId (node e)) (filter T (es @ [newEdge m])) = [msgId m]"
      by (simp add: newEdge_def)
    then show ?thesis by (simp only: ce T_def)
  next
    case (Some k)
    then have fi: "findIndex (\<lambda>e. msgId (node e) = msgId m) (edges (page\<lparr>edges := es\<rparr>)) = Some k"
      by (simp add: P_def)
    from findIndex_Some_first [OF Some] have k: "k < length es" "P (es ! k)" by simp_all
    have one: "length (filter P es) = 1" by (rule found_gives_one [OF Some le1])
    show ?thesis
    proof (cases "date_lt (D (updatedAt m)) (D (updatedAt (node (es ! k))))")
      case True
      then have stale: "date_lt (D (updatedAt m))
          (D (updatedAt (node (edges (page\<lparr>edges := es\<rparr>) ! k))))" by simp
      from upsert_stale [OF r1 fi stale] r1
      have ce: "cachedEdges (upsertMessageInCache D (removeTempMessagesByText c t) m) = es"
        by (simp add: cachedEdges_def)
      have "\<not> date_ge (D (updatedAt m)) (D (updatedAt (node (es ! k))))"
        by (rule date_lt_not_ge [OF True])
      with h3' k have tk: "T (es ! k)" by auto
      have "\<forall>e \<in> set es. P e \<longrightarrow> T e \<and> msgId (node e) = msgId m"
      proof (intro ballI impI)
        fix e assume e: "e \<in> set es" "P e"
        from k have "es ! k \<in> set es" by simp
        from unique_match [OF le1 e(1) e(2) this k(2)] have "e = es ! k" .
        with tk e(2) show "T e \<and> msgId (node e) = msgId m" by (simp add: P_def)
      qed
      from one_with_text [of P es T "\<lambda>e. e" "\<lambda>e. msgId (node e)" "msgId m", OF one this tp]
      have "map (\<lambda>e. msgId (node e)) (filter T es) = [msgId m]" by simp
      then show ?thesis by (simp only: ce T_def)
    next
      case False
      then have fresh: "\<not> date_lt (D (updatedAt m))
          (D (updatedAt (node (edges (page\<lparr>edges := es\<rparr>) ! k))))" by simp
      from upsert_fresh [OF r1 fi fresh]
      have "cachedEdges (upsertMessageInCache D (removeTempMessagesByText c t) m)
              = es[k := (es ! k)\<lparr>node := m\<rparr>]"
        by (simp add: cachedEdges_def)
      also have "\<dots> = map (\<lambda>e. if P e then e\<lparr>node := m\<rparr> else e) es"
        by (rule update_first_as_map [OF Some le1])
      finally have ce: "cachedEdges (upsertMessageInCache D (removeTempMessagesByText c t) m)
              = map (\<lambda>e. if P e then e\<lparr>node := m\<rparr> else e) es" .
      have a: "\<forall>e \<in> set es. P e \<longrightarrow> T (if P e then e\<lparr>node := m\<rparr> else e)
                 \<and> msgId (node (if P e then e\<lparr>node := m\<rparr> else e)) = msgId m"
        using tm by simp
      have b: "\<forall>e \<in> set es. \<not> P e \<longrightarrow> \<not> T (if P e then e\<lparr>node := m\<rparr> else e)"
        using tp by simp
      from one_with_text [of P es T "\<lambda>e. if P e then e\<lparr>node := m\<rparr> else e"
            "\<lambda>e. msgId (node e)" "msgId m", OF one a b]
      show ?thesis by (simp only: ce T_def)
    qed
  qed
qed

lemma update_one:
  assumes r: "readQuery c = Some page"
    and h1: "\<forall>e \<in> set (edges page). msgText (node e) = msgText m
               \<and> \<not> startsWith (msgId (node e)) ''temp-'' \<longrightarrow> msgId (node e) = msgId m"
    and h2: "length (filter (\<lambda>e. msgId (node e) = msgId m) (edges page)) \<le> 1"
    and h3: "\<forall>e \<in> set (edges page). msgId (node e) = msgId m \<longrightarrow>
               msgText (node e) = msgText m
               \<or> date_ge (D (updatedAt m)) (D (updatedAt (node e)))"
  shows "map (\<lambda>e. msgId (node e)) (filter (\<lambda>e. msgText (node e) = msgText m)
           (cachedEdges (useSendMessage_update D c (Some m)))) = [msgId m]"
proof -
  define es where "es = filter (\<lambda>e. \<not> isTempMatch (msgText m) e) (edges page)"
  define P where "P = (\<lambda>e::MessageEdge. msgId (node e) = msgId m)"
  define T where "T = (\<lambda>e::MessageEdge. msgText (node e) = msgText m)"
  define g where "g = (\<lambda>e::MessageEdge. if msgId (node e) = msgId m
                        \<and> date_ge (D (updatedAt m)) (D (updatedAt (node e)))
                     then e\<lparr>node := m\<rparr> else e)"
  have ce: "cachedEdges (useSendMessage_update D c (Some m)) = finalEdges D (edges page) m"
    using r by (simp add: useSendMessage_update_def cachedEdges_def)
  have sub: "set es \<subseteq> set (edges page)" by (auto simp: es_def)
  have tp: "\<forall>e \<in> set es. \<not> P e \<longrightarrow> \<not> T e"
    using h1 by (auto simp: es_def P_def T_def isTempMatch_def)
  have le1: "length (filter P es) \<le> 1"
    using filter_filter_length_le [of P "\<lambda>e. \<not> isTempMatch (msgText m) e" "edges page"] h2
    by (simp add: es_def P_def)
  have h3': "\<forall>e \<in> set es. P e \<longrightarrow> T e \<or> date_ge (D (updatedAt m)) (D (updatedAt (node e)))"
    using h3 sub by (auto simp: P_def T_def)
  show ?thesis
  proof (cases "list_ex (\<lambda>e. msgId (node e) = msgId m) es")
    case False
    then have fe: "finalEdges D (edges page) m = es @ [newEdge m]"
      by (simp add: finalEdges_filter es_def)
    from False have "\<forall>e \<in> set es. \<not> P e" by (simp add: list_ex_iff P_def)
    with tp have "filter T es = []" by (simp add: filter_empty_conv)
    moreover have "T (newEdge m)" by (simp add: T_def newEdge_def)
    ultimately have "map (\<lambda>e. msgId (node e)) (filter T (es @ [newEdge m])) = [msgId m]"
      by (simp add: newEdge_def)
    then show ?thesis by (simp only: ce fe T_def)
  next
    case True
    then have fe: "finalEdges D (edges page) m = map g es"
      by (simp add: finalEdges_filter es_def g_def)
    from True have "filter P es \<noteq> []"
      by (simp add: list_ex_iff filter_empty_conv P_def)
    then have "length (filter P es) \<noteq> 0" by simp
    with le1 have one: "length (filter P es) = 1" by linarith
    have a: "\<forall>e \<in> set es. P e \<longrightarrow> T (g e) \<and> msgId (node (g e)) = msgId m"
      using h3' by (auto simp: g_def P_def T_def)
    have b: "\<forall>e \<in> set es. \<not> P e \<longrightarrow> \<not> T (g e)"
      using tp by (auto simp: g_def P_def)
    from one_with_text [of P es T g "\<lambda>e. msgId (node e)" "msgId m", OF one a b]
    show ?thesis by (simp only: ce fe T_def)
  qed
qed

text \<open>
  C2. On a cache that holds a page, the eviction leaves exactly the edges that are not
  both temporary (id starting with \<^verbatim>\<open>temp-\<close>) and of the submitted text, in their order:
  every such temporary edge goes and no other edge is touched. Followed by the upsert of
  a confirmed message (an id without the prefix) with that text, and equally in the
  \<^verbatim>\<open>update\<close> callback of the mutation, no temporary edge with that text remains. Exactly
  one edge has that text afterwards, and it carries the confirmed id, whether the
  confirmed message is appended or merged with an edge of its id that is already there,
  provided that no edge of another id that is not temporary has that text, that at most
  one edge carries the confirmed id, and that an edge already stored under the confirmed
  id has that text or is not fresher than the confirmed message. When the confirmed id
  is not yet in the store, the result is the kept edges followed by the edge of the
  confirmed message.
\<close>

theorem C2_temp_eviction:
  assumes "readQuery c = Some page"
  shows "readQuery (removeTempMessagesByText c t) =
           Some (page\<lparr>edges := filter (\<lambda>e. \<not> (startsWith (msgId (node e)) ''temp-''
                                              \<and> msgText (node e) = t)) (edges page)\<rparr>)
     \<and> (\<not> startsWith (msgId m) ''temp-'' \<and> msgText m = t \<longrightarrow>
          filter (isTempMatch t)
            (cachedEdges (upsertMessageInCache D (removeTempMessagesByText c t) m)) = []
        \<and> filter (isTempMatch t) (cachedEdges (useSendMessage_update D c (Some m))) = []
        \<and> ((\<forall>e \<in> set (edges page). msgText (node e) = t
                  \<and> \<not> startsWith (msgId (node e)) ''temp-'' \<longrightarrow> msgId (node e) = msgId m)
            \<and> length (filter (\<lambda>e. msgId (node e) = msgId m) (edges page)) \<le> 1
            \<and> (\<forall>e \<in> set (edges page). msgId (node e) = msgId m \<longrightarrow>
                  msgText (node e) = t
                  \<or> date_ge (D (updatedAt m)) (D (updatedAt (node e)))) \<longrightarrow>
              map (\<lambda>e. msgId (node e)) (filter (\<lambda>e. msgText (node e) = t)
                (cachedEdges (upsertMessageInCache D (removeTempMessagesByText c t) m)))
                = [msgId m]
            \<and> map (\<lambda>e. msgId (node e)) (filter (\<lambda>e. msgText (node e) = t)
                (cachedEdges (useSendMessage_update D c (Some m)))) = [msgId m])
        \<and> ((\<forall>e \<in> set (edges page). msgId (node e) \<noteq> msgId m) \<longrightarrow>
              cachedEdges (upsertMessageInCache D (removeTempMessagesByText c t) m)
                = filter (\<lambda>e. \<not> isTempMatch t e) (edges page) @ [newEdge m]
            \<and> cachedEdges (useSendMessage_update D c (Some m))
                = filter (\<lambda>e. \<not> isTempMatch t e) (edges page) @ [newEdge m]
            \<and> ((\<forall>e \<in> set (edges page).
                    msgText (node e) = t \<longrightarrow> startsWith (msgId (node e)) ''temp-'') \<longrightarrow>
                  filter (\<lambda>e. msgText (node e) = t)
                    (cachedEdges (upsertMessageInCache D (removeTempMessagesByText c t) m))
                    = [newEdge m]
                \<and> filter (\<lambda>e. msgText (node e) = t)
                    (cachedEdges (useSendMessage_update D c (Some m))) = [newEdge m])))"
proof (intro conjI impI)
  show "readQuery (removeTempMessagesByText c t) =
           Some (page\<lparr>edges := filter (\<lambda>e. \<not> (startsWith (msgId (node e)) ''temp-''
                                              \<and> msgText (node e) = t)) (edges page)\<rparr>)"
    using removeTemp_read [OF assms, of t] by (simp add: isTempMatch_def)
next
  assume h: "\<not> startsWith (msgId m) ''temp-'' \<and> msgText m = t"
  then have m: "\<not> startsWith (msgId m) ''temp-''" and t: "msgText m = t" by simp_all
  show "filter (isTempMatch t)
          (cachedEdges (upsertMessageInCache D (removeTempMessagesByText c t) m)) = []"
    using evict_then_upsert_no_temp [OF assms m, of D t] by (simp add: filter_empty_conv)
  show "filter (isTempMatch t) (cachedEdges (useSendMessage_update D c (Some m))) = []"
    using update_no_temp [OF assms m, of D] t by (simp add: filter_empty_conv)
  {
    assume g: "(\<forall>e \<in> set (edges page). msgText (node e) = t
                  \<and> \<not> startsWith (msgId (node e)) ''temp-'' \<longrightarrow> msgId (node e) = msgId m)
            \<and> length (filter (\<lambda>e. msgId (node e) = msgId m) (edges page)) \<le> 1
            \<and> (\<forall>e \<in> set (edges page). msgId (node e) = msgId m \<longrightarrow>
                  msgText (node e) = t
                  \<or> date_ge (D (updatedAt m)) (D (updatedAt (node e))))"
    then have h1: "\<forall>e \<in> set (edges page). msgText (node e) = t
                  \<and> \<not> startsWith (msgId (node e)) ''temp-'' \<longrightarrow> msgId (node e) = msgId m"
      and h2: "length (filter (\<lambda>e. msgId (node e) = msgId m) (edges page)) \<le> 1"
      and h3: "\<forall>e \<in> set (edges page). msgId (node e) = msgId m \<longrightarrow>
                  msgText (node e) = t
                  \<or> date_ge (D (updatedAt m)) (D (updatedAt (node e)))"
      by blast+
    show "map (\<lambda>e. msgId (node e)) (filter (\<lambda>e. msgText (node e) = t)
            (cachedEdges (upsertMessageInCache D (removeTempMessagesByText c t) m)))
            = [msgId m]"
      by (rule evict_then_upsert_one [OF assms t h1 h2 h3])
    from h1 h2 h3 t have "map (\<lambda>e. msgId (node e)) (filter (\<lambda>e. msgText (node e) = msgText m)
            (cachedEdges (useSendMessage_update D c (Some m)))) = [msgId m]"
      by (intro update_one [OF assms]) simp_all
    with t show "map (\<lambda>e. msgId (node e)) (filter (\<lambda>e. msgText (node e) = t)
            (cachedEdges (useSendMessage_update D c (Some m)))) = [msgId m]"
      by simp
  }
  {
    assume new: "\<forall>e \<in> set (edges page). msgId (node e) \<noteq> msgId m"
    show a: "cachedEdges (upsertMessageInCache D (removeTempMessagesByText c t) m)
                = filter (\<lambda>e. \<not> isTempMatch t e) (edges page) @ [newEdge m]"
      by (rule evict_then_upsert_new [OF assms new])
    show b: "cachedEdges (useSendMessage_update D c (Some m))
                = filter (\<lambda>e. \<not> isTempMatch t e) (edges page) @ [newEdge m]"
      using update_new [OF assms new, of D] t by simp
    {
      assume only: "\<forall>e \<in> set (edges page).
                    msgText (node e) = t \<longrightarrow> startsWith (msgId (node e)) ''temp-''"
      have none: "filter (\<lambda>e. msgText (node e) = t)
                    (filter (\<lambda>e. \<not> isTempMatch t e) (edges page)) = []"
        using only by (simp add: filter_empty_conv isTempMatch_def) blast
      have mine: "msgText (node (newEdge m)) = t"
        using t by (simp add: newEdge_def)
      show "filter (\<lambda>e. msgText (node e) = t)
              (cachedEdges (upsertMessageInCache D (removeTempMessagesByText c t) m))
              = [newEdge m]"
        using none mine by (simp add: a)
      show "filter (\<lambda>e. msgText (node e) = t)
              (cachedEdges (useSendMessage_update D c (Some m))) = [newEdge m]"
        using none mine by (simp add: b)
    }
  }
qed

text \<open>
  Each of the three conditions is needed. On a store in which an earlier server message
  of another id already has the submitted text, that edge is kept and two edges have the
  text afterwards. On a store that holds the confirmed id with another text and a later
  timestamp, the confirmed message is discarded as stale and no edge has the text. On a
  store that holds the confirmed id twice, two edges have the text.
\<close>

theorem C2_temp_eviction_counterexample:
  "map (\<lambda>e. msgId (node e))
     (filter (\<lambda>e. msgText (node e) = ''hi'')
        (cachedEdges (upsertMessageInCache testClock
           (removeTempMessagesByText sameTextStore ''hi'') confirmed))) = [''5'', ''42'']
   \<and> map (\<lambda>e. msgId (node e))
     (filter (\<lambda>e. msgText (node e) = ''hi'')
        (cachedEdges (useSendMessage_update testClock sameTextStore (Some confirmed))))
      = [''5'', ''42'']
   \<and> filter (\<lambda>e. msgText (node e) = ''hi'')
        (cachedEdges (upsertMessageInCache testClock
           (removeTempMessagesByText otherTextStore ''hi'') staleConfirmed)) = []
   \<and> filter (\<lambda>e. msgText (node e) = ''hi'')
        (cachedEdges (useSendMessage_update testClock otherTextStore (Some staleConfirmed))) = []
   \<and> map (\<lambda>e. msgId (node e))
     (filter (\<lambda>e. msgText (node e) = ''hi'')
        (cachedEdges (upsertMessageInCache testClock
           (removeTempMessagesByText duplicateStore ''hi'') confirmed))) = [''42'', ''42'']
   \<and> map (\<lambda>e. msgId (node e))
     (filter (\<lambda>e. msgText (node e) = ''hi'')
        (cachedEdges (useSendMessage_update testClock duplicateStore (Some confirmed))))
      = [''42'', ''42'']"
  by (simp add: sameTextStore_def otherTextStore_def duplicateStore_def confirmed_def
      staleConfirmed_def removeTempMessagesByText_def isTempMatch_def
      startsWith_def upsertMessageInCache_def useSendMessage_update_def finalEdges_def
      cachedEdges_def date_lt_def date_ge_def Let_def concrete_defs)

theorem C2_temp_eviction_witness:
  "readQuery (removeTempMessagesByText tempStore ''hi'') =
     Some (mkPage [mkMessage ''7'' ''bye'' ''2023-01-01T00:00:00.000Z'' Read Customer,
                   mkMessage ''temp-2'' ''bye'' ''2023-01-02T00:00:00.000Z'' Sending Admin]
             \<lparr>pageInfo := pageInfo (mkPage
                [mkMessage ''7'' ''bye'' ''2023-01-01T00:00:00.000Z'' Read Customer,
                 mkMessage ''temp-1'' ''hi'' ''2023-01-02T00:00:00.000Z'' Sending Admin,
                 mkMessage ''temp-2'' ''bye'' ''2023-01-02T00:00:00.000Z'' Sending Admin,
                 mkMessage ''temp-3'' ''hi'' ''2023-01-02T00:00:00.000Z'' Sending Admin])\<rparr>)
   \<and> filter (isTempMatch ''hi'')
        (cachedEdges (upsertMessageInCache testClock
           (removeTempMessagesByText tempStore ''hi'') confirmed)) = []
   \<and> filter (isTempMatch ''hi'')
        (cachedEdges (useSendMessage_update testClock tempStore (Some confirmed))) = []
   \<and> cachedEdges (upsertMessageInCache testClock
           (removeTempMessagesByText tempStore ''hi'') confirmed)
       = map newEdge [mkMessage ''7'' ''bye'' ''2023-01-01T00:00:00.000Z'' Read Customer,
                      mkMessage ''temp-2'' ''bye'' ''2023-01-02T00:00:00.000Z'' Sending Admin,
                      confirmed]
   \<and> cachedEdges (useSendMessage_update testClock tempStore (Some confirmed))
       = map newEdge [mkMessage ''7'' ''bye'' ''2023-01-01T00:00:00.000Z'' Read Customer,
                      mkMessage ''temp-2'' ''bye'' ''2023-01-02T00:00:00.000Z'' Sending Admin,
                      confirmed]
   \<and> filter (\<lambda>e. msgText (node e) = ''hi'')
        (cachedEdges (upsertMessageInCache testClock
           (removeTempMessagesByText tempStore ''hi'') confirmed)) = [newEdge confirmed]
   \<and> filter (\<lambda>e. msgText (node e) = ''hi'')
        (cachedEdges (useSendMessage_update testClock tempStore (Some confirmed)))
       = [newEdge confirmed]
   \<and> map (\<lambda>e. msgId (node e)) (filter (\<lambda>e. msgText (node e) = ''hi'')
        (cachedEdges (upsertMessageInCache testClock
           (removeTempMessagesByText ackStore ''hi'') confirmed))) = [''42'']
   \<and> map (\<lambda>e. msgId (node e)) (filter (\<lambda>e. msgText (node e) = ''hi'')
        (cachedEdges (useSendMessage_update testClock ackStore (Some confirmed)))) = [''42'']"
proof -
  let ?page = "mkPage
     [mkMessage ''7'' ''bye'' ''2023-01-01T00:00:00.000Z'' Read Customer,
      mkMessage ''temp-1'' ''hi'' ''2023-01-02T00:00:00.000Z'' Sending Admin,
      mkMessage ''temp-2'' ''bye'' ''2023-01-02T00:00:00.000Z'' Sending Admin,
      mkMessage ''temp-3'' ''hi'' ''2023-01-02T00:00:00.000Z'' Sending Admin]"
  let ?ack = "mkPage
     [mkMessage ''7'' ''bye'' ''2023-01-01T00:00:00.000Z'' Read Customer,
      mkMessage ''temp-1'' ''hi'' ''2023-01-02T00:00:00.000Z'' Sending Admin,
      mkMessage ''42'' ''hi'' ''2023-01-02T00:00:00.000Z'' Sent Admin]"
  have r: "readQuery tempStore = Some ?page"
    by (simp add: tempStore_def cacheOf_def readQuery_def)
  have ra: "readQuery ackStore = Some ?ack"
    by (simp add: ackStore_def cacheOf_def readQuery_def)
  have h1: "\<not> startsWith (msgId confirmed) ''temp-'' \<and> msgText confirmed = ''hi''"
    by (simp add: confirmed_def mkMessage_def startsWith_def)
  have h2: "\<forall>e \<in> set (edges ?page). msgId (node e) \<noteq> msgId confirmed"
    by (simp add: confirmed_def concrete_defs)
  have h3: "\<forall>e \<in> set (edges ?page).
              msgText (node e) = ''hi'' \<longrightarrow> startsWith (msgId (node e)) ''temp-''"
    by (simp add: startsWith_def concrete_defs)
  have g: "(\<forall>e \<in> set (edges ?ack). msgText (node e) = ''hi''
                  \<and> \<not> startsWith (msgId (node e)) ''temp-'' \<longrightarrow> msgId (node e) = msgId confirmed)
            \<and> length (filter (\<lambda>e. msgId (node e) = msgId confirmed) (edges ?ack)) \<le> 1
            \<and> (\<forall>e \<in> set (edges ?ack). msgId (node e) = msgId confirmed \<longrightarrow>
                  msgText (node e) = ''hi''
                  \<or> date_ge (testClock (updatedAt confirmed)) (testClock (updatedAt (node e))))"
    by (simp add: confirmed_def startsWith_def concrete_defs)
  have kept: "filter (\<lambda>e. \<not> isTempMatch ''hi'' e) (edges ?page)
      = map newEdge [mkMessage ''7'' ''bye'' ''2023-01-01T00:00:00.000Z'' Read Customer,
                     mkMessage ''temp-2'' ''bye'' ''2023-01-02T00:00:00.000Z'' Sending Admin]"
    by (simp add: isTempMatch_def startsWith_def concrete_defs)
  from C2_temp_eviction [OF r, of "''hi''" confirmed testClock] h1 h2 h3
  have "readQuery (removeTempMessagesByText tempStore ''hi'') =
           Some (?page\<lparr>edges := filter (\<lambda>e. \<not> (startsWith (msgId (node e)) ''temp-''
                                              \<and> msgText (node e) = ''hi'')) (edges ?page)\<rparr>)"
    and "filter (isTempMatch ''hi'')
        (cachedEdges (upsertMessageInCache testClock
           (removeTempMessagesByText tempStore ''hi'') confirmed)) = []"
    and "filter (isTempMatch ''hi'')
        (cachedEdges (useSendMessage_update testClock tempStore (Some confirmed))) = []"
    and "cachedEdges (upsertMessageInCache testClock
           (removeTempMessagesByText tempStore ''hi'') confirmed)
          = filter (\<lambda>e. \<not> isTempMatch ''hi'' e) (edges ?page) @ [newEdge confirmed]"
    and "cachedEdges (useSendMessage_update testClock tempStore (Some confirmed))
          = filter (\<lambda>e. \<not> isTempMatch ''hi'' e) (edges ?page) @ [newEdge confirmed]"
    and "filter (\<lambda>e. msgText (node e) = ''hi'')
        (cachedEdges (upsertMessageInCache testClock
           (removeTempMessagesByText tempStore ''hi'') confirmed)) = [newEdge confirmed]"
    and "filter (\<lambda>e. msgText (node e) = ''hi'')
        (cachedEdges (useSendMessage_update testClock tempStore (Some confirmed)))
       = [newEdge confirmed]"
    by blast+
  then have first: "readQuery (removeTempMessagesByText tempStore ''hi'') =
     Some (mkPage [mkMessage ''7'' ''bye'' ''2023-01-01T00:00:00.000Z'' Read Customer,
                   mkMessage ''temp-2'' ''bye'' ''2023-01-02T00:00:00.000Z'' Sending Admin]
             \<lparr>pageInfo := pageInfo ?page\<rparr>)
   \<and> filter (isTempMatch ''hi'')
        (cachedEdges (upsertMessageInCache testClock
           (removeTempMessagesByText tempStore ''hi'') confirmed)) = []
   \<and> filter (isTempMatch ''hi'')
        (cachedEdges (useSendMessage_update testClock tempStore (Some confirmed))) = []
   \<and> cachedEdges (upsertMessageInCache testClock
           (removeTempMessagesByText tempStore ''hi'') confirmed)
       = map newEdge [mkMessage ''7'' ''bye'' ''2023-01-01T00:00:00.000Z'' Read Customer,
                      mkMessage ''temp-2'' ''bye'' ''2023-01-02T00:00:00.000Z'' Sending Admin,
                      confirmed]
   \<and> cachedEdges (useSendMessage_update testClock tempStore (Some confirmed))
       = map newEdge [mkMessage ''7'' ''bye'' ''2023-01-01T00:00:00.000Z'' Read Customer,
                      mkMessage ''temp-2'' ''bye'' ''2023-01-02T00:00:00.000Z'' Sending Admin,
                      confirmed]
   \<and> filter (\<lambda>e. msgText (node e) = ''hi'')
        (cachedEdges (upsertMessageInCache testClock
           (removeTempMessagesByText tempStore ''hi'') confirmed)) = [newEdge confirmed]
   \<and> filter (\<lambda>e. msgText (node e) = ''hi'')
        (cachedEdges (useSendMessage_update testClock tempStore (Some confirmed)))
       = [newEdge confirmed]"
    by (simp add: kept) (simp add: startsWith_def concrete_defs)
  from C2_temp_eviction [OF ra, of "''hi''" confirmed testClock] h1 g
  have "map (\<lambda>e. msgId (node e)) (filter (\<lambda>e. msgText (node e) = ''hi'')
        (cachedEdges (upsertMessageInCache testClock
           (removeTempMessagesByText ackStore ''hi'') confirmed))) = [msgId confirmed]"
    and "map (\<lambda>e. msgId (node e)) (filter (\<lambda>e. msgText (node e) = ''hi'')
        (cachedEdges (useSendMessage_update testClock ackStore (Some confirmed)))) = [msgId confirmed]"
    by blast+
  then have second: "map (\<lambda>e. msgId (node e)) (filter (\<lambda>e. msgText (node e) = ''hi'')
        (cachedEdges (upsertMessageInCache testClock
           (removeTempMessagesByText ackStore ''hi'') confirmed))) = [''42'']
   \<and> map (\<lambda>e. msgId (node e)) (filter (\<lambda>e. msgText (node e) = ''hi'')
        (cachedEdges (useSendMessage_update testClock ackStore (Some confirmed)))) = [''42'']"
    by (simp add: confirmed_def mkMessage_def)
  from first second show ?thesis by blast
qed

section \<open>Freshness along a sequence of upserts\<close>

lemma find_snoc:
  "find P (xs @ [x]) = (case find P xs of None \<Rightarrow> (if P x then Some x else None) | Some y \<Rightarrow> Some y)"
  by (induction xs) simp_all

lemma find_update_outside:
  "\<not> P (xs ! k) \<Longrightarrow> \<not> P y \<Longrightarrow> find P (xs[k := y]) = find P xs"
proof (induction xs arbitrary: k)
  case Nil
  then show ?case by simp
next
  case (Cons x xs)
  then show ?case by (cases k) simp_all
qed

lemma find_findIndex:
  "findIndex P xs = Some k \<Longrightarrow> find P xs = Some (xs ! k)"
proof (induction xs arbitrary: k)
  case Nil
  then show ?case by simp
next
  case (Cons x xs)
  then show ?case by (cases "P x") auto
qed

lemma find_findIndex_None:
  "findIndex P xs = None \<Longrightarrow> find P xs = None"
  by (simp add: findIndex_None_iff find_None_iff)

lemma storedNode_upsert:
  assumes r: "readQuery c = Some page"
  shows "storedNode (upsertMessageInCache D c m) i =
           (if msgId m = i then arbitrate D (storedNode c i) m else storedNode c i)"
proof (cases "findIndex (\<lambda>e. msgId (node e) = msgId m) (edges page)")
  case None
  then have absent: "\<forall>e \<in> set (edges page). msgId (node e) \<noteq> msgId m"
    by (simp add: findIndex_None_iff)
  from upsert_absent [OF r absent]
  have r': "readQuery (upsertMessageInCache D c m) = Some (page\<lparr>edges := edges page @ [newEdge m]\<rparr>)"
    by simp
  show ?thesis
  proof (cases "msgId m = i")
    case True
    with None have "find (\<lambda>e. msgId (node e) = i) (edges page) = None"
      by (simp add: find_findIndex_None)
    with True r r' show ?thesis
      by (simp add: storedNode_def find_snoc arbitrate_def newEdge_def)
  next
    case False
    with r r' show ?thesis
      by (simp add: storedNode_def find_snoc newEdge_def split: option.splits)
  qed
next
  case (Some k)
  from findIndex_Some_first [OF Some]
  have k: "k < length (edges page)" "msgId (node (edges page ! k)) = msgId m" by simp_all
  have fk: "find (\<lambda>e. msgId (node e) = msgId m) (edges page) = Some (edges page ! k)"
    by (rule find_findIndex [OF Some])
  show ?thesis
  proof (cases "date_lt (D (updatedAt m)) (D (updatedAt (node (edges page ! k))))")
    case True
    from upsert_stale [OF r Some True] have same: "upsertMessageInCache D c m = c" .
    show ?thesis
    proof (cases "msgId m = i")
      case True
      with fk r \<open>date_lt (D (updatedAt m)) (D (updatedAt (node (edges page ! k))))\<close>
      show ?thesis by (simp add: same storedNode_def arbitrate_def)
    next
      case False
      then show ?thesis by (simp add: same)
    qed
  next
    case False
    let ?es = "(edges page)[k := (edges page ! k)\<lparr>node := m\<rparr>]"
    from upsert_fresh [OF r Some False]
    have r': "readQuery (upsertMessageInCache D c m) = Some (page\<lparr>edges := ?es\<rparr>)"
      by simp
    show ?thesis
    proof (cases "msgId m = i")
      case True
      have "findIndex (\<lambda>e. msgId (node e) = msgId m) ?es = Some k"
        by (rule findIndex_update_hit [OF Some]) simp
      from find_findIndex [OF this] k(1)
      have "find (\<lambda>e. msgId (node e) = msgId m) ?es = Some ((edges page ! k)\<lparr>node := m\<rparr>)"
        by simp
      with True fk r r' False show ?thesis
        by (simp add: storedNode_def arbitrate_def)
    next
      case False
      with k(2) have "find (\<lambda>e. msgId (node e) = i) ?es = find (\<lambda>e. msgId (node e) = i) (edges page)"
        by (intro find_update_outside) simp_all
      with False r r' show ?thesis
        by (simp add: storedNode_def)
    qed
  qed
qed

lemma upsert_present:
  "readQuery c = Some page \<Longrightarrow> \<exists>page'. readQuery (upsertMessageInCache D c m) = Some page'"
  using upsert_frame [of c page D m] by blast

lemma applyUpserts_snoc:
  "applyUpserts D c (ms @ [m]) = upsertMessageInCache D (applyUpserts D c ms) m"
  by (simp add: applyUpserts_def)

lemma applyUpserts_present:
  "readQuery c = Some page \<Longrightarrow> \<exists>page'. readQuery (applyUpserts D c ms) = Some page'"
proof (induction ms rule: rev_induct)
  case Nil
  then show ?case by (simp add: applyUpserts_def)
next
  case (snoc m ms)
  then obtain p where "readQuery (applyUpserts D c ms) = Some p" by blast
  from upsert_present [OF this] show ?case
    by (simp add: applyUpserts_snoc)
qed

lemma storedNode_applyUpserts_snoc:
  assumes "readQuery c = Some page"
  shows "storedNode (applyUpserts D c (ms @ [m])) i =
           (if msgId m = i then arbitrate D (storedNode (applyUpserts D c ms) i) m
            else storedNode (applyUpserts D c ms) i)"
proof -
  from applyUpserts_present [OF assms] obtain p where "readQuery (applyUpserts D c ms) = Some p"
    by blast
  from storedNode_upsert [OF this] show ?thesis
    by (simp add: applyUpserts_snoc)
qed

lemma appliedInstants_snoc:
  "appliedInstants D i (ms @ [m]) =
     appliedInstants D i ms @
       (if msgId m = i then (case D (updatedAt m) of None \<Rightarrow> [] | Some t \<Rightarrow> [t]) else [])"
  by (simp add: appliedInstants_def List.map_filter_def split: option.splits)

lemma appliedInstants_mono:
  "set xs \<subseteq> set ys \<Longrightarrow> set (appliedInstants D i xs) \<subseteq> set (appliedInstants D i ys)"
  by (auto simp: appliedInstants_def List.map_filter_def)

lemma appliedInstants_member:
  "m \<in> set ms \<Longrightarrow> msgId m = i \<Longrightarrow> D (updatedAt m) = Some t \<Longrightarrow> t \<in> set (appliedInstants D i ms)"
  by (force simp: appliedInstants_def List.map_filter_def)

lemma freshest_snoc:
  "freshest init (ts @ [t]) = Some (case freshest init ts of None \<Rightarrow> t | Some M \<Rightarrow> max M t)"
proof (cases init)
  case None
  show ?thesis
  proof (cases "ts = []")
    case True
    with None show ?thesis by (simp add: freshest_def)
  next
    case False
    then have "Max (insert t (set ts)) = max t (Max (set ts))"
      by (intro Max_insert) simp_all
    with None False show ?thesis by (simp add: freshest_def max.commute)
  qed
next
  case (Some t0)
  have "Max (insert t (insert t0 (set ts))) = max t (Max (insert t0 (set ts)))"
    by (intro Max_insert) simp_all
  moreover have "insert t0 (insert t (set ts)) = insert t (insert t0 (set ts))"
    by blast
  ultimately show ?thesis using Some by (simp add: freshest_def max.commute)
qed

lemma freshest_ge_applied:
  assumes "t \<in> set ts"
  shows "\<exists>M. freshest init ts = Some M \<and> t \<le> M"
proof (cases init)
  case None
  from assms have "ts \<noteq> []" by auto
  moreover from assms have "t \<le> Max (set ts)" by simp
  ultimately show ?thesis using None by (simp add: freshest_def)
next
  case (Some t0)
  from assms have "t \<le> Max (insert t0 (set ts))" by simp
  with Some show ?thesis by (simp add: freshest_def)
qed

lemma freshest_mono:
  assumes "set ts \<subseteq> set ts'" and "freshest init ts = Some a"
  shows "\<exists>b. freshest init ts' = Some b \<and> a \<le> b"
proof (cases init)
  case None
  with assms(2) have ne: "ts \<noteq> []" and a: "a = Max (set ts)"
    by (auto simp: freshest_def split: if_splits)
  from ne assms(1) have ne': "ts' \<noteq> []" by auto
  have "Max (set ts) \<le> Max (set ts')"
    using assms(1) ne by (intro Max_mono) simp_all
  with None ne' a show ?thesis by (simp add: freshest_def)
next
  case (Some t0)
  with assms(2) have a: "a = Max (insert t0 (set ts))"
    by (simp add: freshest_def)
  have "Max (insert t0 (set ts)) \<le> Max (insert t0 (set ts'))"
    using assms(1) by (intro Max_mono) auto
  with Some a show ?thesis by (simp add: freshest_def)
qed

lemma instant_arbitrate:
  assumes "D (updatedAt m) = Some t"
  shows "Option.bind (arbitrate D cur m) (\<lambda>n. D (updatedAt n)) =
           Some (case Option.bind cur (\<lambda>n. D (updatedAt n)) of None \<Rightarrow> t | Some M \<Rightarrow> max M t)"
proof (cases cur)
  case None
  with assms show ?thesis by (simp add: arbitrate_def)
next
  case (Some n)
  show ?thesis
  proof (cases "D (updatedAt n)")
    case None
    with Some assms show ?thesis by (simp add: arbitrate_def date_lt_def)
  next
    case (Some s)
    with \<open>cur = Some n\<close> assms show ?thesis
      by (simp add: arbitrate_def date_lt_def max_def)
  qed
qed

lemma storedInstant_applyUpserts:
  assumes r: "readQuery c = Some page"
    and valid: "\<forall>m \<in> set ms. D (updatedAt m) \<noteq> None"
  shows "storedInstant D (applyUpserts D c ms) i =
           freshest (storedInstant D c i) (appliedInstants D i ms)"
  using valid
proof (induction ms rule: rev_induct)
  case Nil
  show ?case
    by (cases "storedInstant D c i")
       (simp_all add: applyUpserts_def appliedInstants_def freshest_def)
next
  case (snoc m ms)
  then have ih: "storedInstant D (applyUpserts D c ms) i =
           freshest (storedInstant D c i) (appliedInstants D i ms)" by simp
  from snoc.prems obtain t where t: "D (updatedAt m) = Some t" by auto
  show ?case
  proof (cases "msgId m = i")
    case True
    have "storedInstant D (applyUpserts D c (ms @ [m])) i =
            Option.bind (arbitrate D (storedNode (applyUpserts D c ms) i) m) (\<lambda>n. D (updatedAt n))"
      using True by (simp add: storedInstant_def storedNode_applyUpserts_snoc [OF r])
    also have "\<dots> = Some (case storedInstant D (applyUpserts D c ms) i of
                           None \<Rightarrow> t | Some M \<Rightarrow> max M t)"
      using instant_arbitrate [of D m t "storedNode (applyUpserts D c ms) i"] t
      by (simp add: storedInstant_def)
    also have "\<dots> = freshest (storedInstant D c i) (appliedInstants D i ms @ [t])"
      by (simp add: ih freshest_snoc)
    finally show ?thesis using True t by (simp add: appliedInstants_snoc)
  next
    case False
    then show ?thesis
      by (simp add: storedInstant_def storedNode_applyUpserts_snoc [OF r] appliedInstants_snoc)
         (simp add: ih [unfolded storedInstant_def])
  qed
qed

lemma last_applied_wins:
  assumes r: "readQuery c = Some page"
  shows "k < length ms \<Longrightarrow> msgId (ms ! k) = i \<Longrightarrow>
         D (updatedAt (ms ! k)) = storedInstant D (applyUpserts D c ms) i \<Longrightarrow>
         D (updatedAt (ms ! k)) \<noteq> None \<Longrightarrow>
         (\<forall>j. k < j \<and> j < length ms \<and> msgId (ms ! j) = i \<longrightarrow>
              D (updatedAt (ms ! j)) \<noteq> storedInstant D (applyUpserts D c ms) i) \<Longrightarrow>
         storedNode (applyUpserts D c ms) i = Some (ms ! k)"
proof (induction ms rule: rev_induct)
  case Nil
  then show ?case by simp
next
  case (snoc x ms)
  let ?prev = "storedNode (applyUpserts D c ms) i"
  let ?res = "storedNode (applyUpserts D c (ms @ [x])) i"
  have step: "?res = (if msgId x = i then arbitrate D ?prev x else ?prev)"
    by (rule storedNode_applyUpserts_snoc [OF r])
  have si: "storedInstant D (applyUpserts D c (ms @ [x])) i = Option.bind ?res (\<lambda>n. D (updatedAt n))"
    by (simp add: storedInstant_def)
  show ?case
  proof (cases "k = length ms")
    case True
    then have xk: "(ms @ [x]) ! k = x" by simp
    with snoc.prems(2) have xi: "msgId x = i" by simp
    from snoc.prems(3,4) xk obtain t where t: "D (updatedAt x) = Some t"
      and eq: "storedInstant D (applyUpserts D c (ms @ [x])) i = Some t" by auto
    have "?res = Some x"
    proof (cases ?prev)
      case None
      with step xi show ?thesis by (simp add: arbitrate_def)
    next
      case (Some n)
      show ?thesis
      proof (cases "date_lt (D (updatedAt x)) (D (updatedAt n))")
        case False
        with step xi Some show ?thesis by (simp add: arbitrate_def)
      next
        case True
        with step xi Some have "?res = Some n" by (simp add: arbitrate_def)
        with eq si have "D (updatedAt n) = Some t" by simp
        with True t show ?thesis by (simp add: date_lt_def)
      qed
    qed
    with xk show ?thesis by simp
  next
    case False
    with snoc.prems(1) have k: "k < length ms" by simp
    then have nk: "(ms @ [x]) ! k = ms ! k" by (simp add: nth_append)
    have keep: "?res = ?prev"
    proof (cases "msgId x = i")
      case False
      with step show ?thesis by simp
    next
      case True
      from snoc.prems(5) k True
      have ne: "D (updatedAt x) \<noteq> storedInstant D (applyUpserts D c (ms @ [x])) i"
        by (auto dest: spec [of _ "length ms"])
      show ?thesis
      proof (cases ?prev)
        case None
        with step True have "?res = Some x" by (simp add: arbitrate_def)
        with ne si show ?thesis by simp
      next
        case (Some n)
        show ?thesis
        proof (cases "date_lt (D (updatedAt x)) (D (updatedAt n))")
          case True
          with step \<open>msgId x = i\<close> Some show ?thesis by (simp add: arbitrate_def)
        next
          case False
          with step \<open>msgId x = i\<close> Some have "?res = Some x" by (simp add: arbitrate_def)
          with ne si show ?thesis by simp
        qed
      qed
    qed
    then have si_eq: "storedInstant D (applyUpserts D c (ms @ [x])) i
        = storedInstant D (applyUpserts D c ms) i"
      by (simp add: storedInstant_def)
    have later: "\<forall>j. k < j \<and> j < length ms \<and> msgId (ms ! j) = i \<longrightarrow>
              D (updatedAt (ms ! j)) \<noteq> storedInstant D (applyUpserts D c ms) i"
    proof (intro allI impI)
      fix j assume j: "k < j \<and> j < length ms \<and> msgId (ms ! j) = i"
      then have "(ms @ [x]) ! j = ms ! j" by (simp add: nth_append)
      with snoc.prems(5) j si_eq show "D (updatedAt (ms ! j)) \<noteq> storedInstant D (applyUpserts D c ms) i"
        by (auto dest!: spec [of _ j])
    qed
    from snoc.IH [OF k] snoc.prems(2,3,4) nk si_eq later
    have "?prev = Some (ms ! k)" by simp
    with keep nk show ?thesis by simp
  qed
qed

text \<open>
  C4. A sequence of upserts whose timestamps are valid dates is applied to a
  cache that holds a page. For every id: the instant stored for the id afterwards is the
  maximum of the instant stored for it at the start (if any) and the instants of all
  applied updates for it; after every prefix of the sequence the stored instant is at
  least the instant of every update for the id applied so far, and at least the stored
  instant after any shorter prefix, so it never regresses; and the last update for the id
  whose instant equals the stored instant at the end is the stored record (among equal
  instants the last applied wins).
\<close>

theorem C4_freshness_monotonicity:
  assumes r: "readQuery c = Some page"
    and valid: "\<forall>m \<in> set ms. D (updatedAt m) \<noteq> None"
  shows "storedInstant D (applyUpserts D c ms) i
           = freshest (storedInstant D c i) (appliedInstants D i ms)
     \<and> (\<forall>j k. j < k \<and> k \<le> length ms \<and> msgId (ms ! j) = i \<longrightarrow>
          date_ge (storedInstant D (applyUpserts D c (take k ms)) i) (D (updatedAt (ms ! j))))
     \<and> (\<forall>j k. j \<le> k \<and> k \<le> length ms
            \<and> storedInstant D (applyUpserts D c (take j ms)) i \<noteq> None \<longrightarrow>
          date_ge (storedInstant D (applyUpserts D c (take k ms)) i)
                  (storedInstant D (applyUpserts D c (take j ms)) i))
     \<and> (\<forall>k. k < length ms \<and> msgId (ms ! k) = i
            \<and> D (updatedAt (ms ! k)) = storedInstant D (applyUpserts D c ms) i
            \<and> (\<forall>j. k < j \<and> j < length ms \<and> msgId (ms ! j) = i \<longrightarrow>
                   D (updatedAt (ms ! j)) \<noteq> storedInstant D (applyUpserts D c ms) i)
          \<longrightarrow> storedNode (applyUpserts D c ms) i = Some (ms ! k))"
proof (intro conjI allI impI)
  show "storedInstant D (applyUpserts D c ms) i
           = freshest (storedInstant D c i) (appliedInstants D i ms)"
    by (rule storedInstant_applyUpserts [OF r valid])
next
  fix j k
  assume h: "j < k \<and> k \<le> length ms \<and> msgId (ms ! j) = i"
  have v: "\<forall>m \<in> set (take k ms). D (updatedAt m) \<noteq> None"
    using valid by (meson in_set_takeD)
  from h have mem: "ms ! j \<in> set (take k ms)"
    by (metis in_set_conv_nth length_take min.absorb2 nth_take)
  with v obtain t where t: "D (updatedAt (ms ! j)) = Some t" by auto
  from h have "msgId (ms ! j) = i" by simp
  with mem t have "t \<in> set (appliedInstants D i (take k ms))"
    by (intro appliedInstants_member [of "ms ! j"]) simp_all
  from freshest_ge_applied [OF this, of "storedInstant D c i"]
  obtain M where "freshest (storedInstant D c i) (appliedInstants D i (take k ms)) = Some M"
    and "t \<le> M" by blast
  with storedInstant_applyUpserts [OF r v, of i] t
  show "date_ge (storedInstant D (applyUpserts D c (take k ms)) i) (D (updatedAt (ms ! j)))"
    by (simp add: date_ge_def)
next
  fix j k
  assume h: "j \<le> k \<and> k \<le> length ms
            \<and> storedInstant D (applyUpserts D c (take j ms)) i \<noteq> None"
  have vj: "\<forall>m \<in> set (take j ms). D (updatedAt m) \<noteq> None"
    and vk: "\<forall>m \<in> set (take k ms). D (updatedAt m) \<noteq> None"
    using valid by (meson in_set_takeD)+
  from h obtain a where a: "storedInstant D (applyUpserts D c (take j ms)) i = Some a"
    by auto
  with storedInstant_applyUpserts [OF r vj, of i]
  have fj: "freshest (storedInstant D c i) (appliedInstants D i (take j ms)) = Some a"
    by simp
  from h have "take j ms = take j (take k ms)" by (simp add: min.absorb1)
  then have "set (take j ms) \<subseteq> set (take k ms)"
    by (metis set_take_subset)
  then have "set (appliedInstants D i (take j ms)) \<subseteq> set (appliedInstants D i (take k ms))"
    by (rule appliedInstants_mono)
  from freshest_mono [OF this fj]
  obtain b where "freshest (storedInstant D c i) (appliedInstants D i (take k ms)) = Some b"
    and "a \<le> b" by blast
  with storedInstant_applyUpserts [OF r vk, of i] a
  show "date_ge (storedInstant D (applyUpserts D c (take k ms)) i)
                (storedInstant D (applyUpserts D c (take j ms)) i)"
    by (simp add: date_ge_def)
next
  fix k
  assume h: "k < length ms \<and> msgId (ms ! k) = i
            \<and> D (updatedAt (ms ! k)) = storedInstant D (applyUpserts D c ms) i
            \<and> (\<forall>j. k < j \<and> j < length ms \<and> msgId (ms ! j) = i \<longrightarrow>
                   D (updatedAt (ms ! j)) \<noteq> storedInstant D (applyUpserts D c ms) i)"
  then have "ms ! k \<in> set ms" by simp
  with valid have "D (updatedAt (ms ! k)) \<noteq> None" by blast
  with h show "storedNode (applyUpserts D c ms) i = Some (ms ! k)"
    by (intro last_applied_wins [OF r]) simp_all
qed

text \<open>
  The instant stored at the start cannot be left out of the maximum: on a store that
  already holds a fresher record of the id the stale update is discarded, and the stored
  instant is not the maximum among the applied updates.
\<close>

theorem C4_freshness_monotonicity_counterexample:
  "storedInstant testClock
     (applyUpserts testClock staleStore
        [mkMessage ''7'' ''stale'' ''2023-01-01T00:00:00.000Z'' Sending Customer]) ''7''
     = Some 1672617600000
   \<and> Max (set (appliedInstants testClock ''7''
        [mkMessage ''7'' ''stale'' ''2023-01-01T00:00:00.000Z'' Sending Customer]))
     = 1672531200000"
  by (simp add: storedInstant_def storedNode_def applyUpserts_def upsertMessageInCache_def
      staleStore_def appliedInstants_def date_lt_def concrete_defs)

theorem C4_freshness_monotonicity_witness:
  "storedInstant testClock (applyUpserts testClock freshStore upserts) ''7'' = Some 1672617600000
   \<and> date_ge (storedInstant testClock (applyUpserts testClock freshStore (take 2 upserts)) ''7'')
              (testClock (updatedAt (upserts ! 0)))
   \<and> date_ge (storedInstant testClock (applyUpserts testClock freshStore (take 4 upserts)) ''7'')
              (storedInstant testClock (applyUpserts testClock freshStore (take 0 upserts)) ''7'')
   \<and> storedNode (applyUpserts testClock freshStore upserts) ''7''
       = Some (mkMessage ''7'' ''b'' ''2023-01-02T00:00:00.000Z'' Read Customer)"
proof -
  let ?page = "mkPage [mkMessage ''7'' ''first'' ''2023-01-01T00:00:00.000Z'' Sending Customer]"
  have r: "readQuery freshStore = Some ?page"
    by (simp add: freshStore_def cacheOf_def readQuery_def)
  have valid: "\<forall>m \<in> set upserts. testClock (updatedAt m) \<noteq> None"
    by (simp add: upserts_def testClock_def mkMessage_def)
  note c4 = C4_freshness_monotonicity [OF r valid, of "''7''"]
  have init: "storedInstant testClock freshStore ''7'' = Some 1672531200000"
    by (simp add: storedInstant_def storedNode_def freshStore_def concrete_defs)
  have applied: "appliedInstants testClock ''7'' upserts
      = [1672617600000, 1672531200000, 1672617600000]"
    by (simp add: appliedInstants_def upserts_def testClock_def mkMessage_def)
  from c4 have "storedInstant testClock (applyUpserts testClock freshStore upserts) ''7''
      = freshest (storedInstant testClock freshStore ''7'') (appliedInstants testClock ''7'' upserts)"
    by blast
  then have final: "storedInstant testClock (applyUpserts testClock freshStore upserts) ''7''
      = Some 1672617600000"
    by (simp add: init applied freshest_def)
  have len: "length upserts = 4" by (simp add: upserts_def)
  have id0: "msgId (upserts ! 0) = ''7''" by (simp add: upserts_def mkMessage_def)
  from c4 have "(0::nat) < 2 \<and> 2 \<le> length upserts \<and> msgId (upserts ! 0) = ''7'' \<longrightarrow>
      date_ge (storedInstant testClock (applyUpserts testClock freshStore (take 2 upserts)) ''7'')
              (testClock (updatedAt (upserts ! 0)))"
    by blast
  with len id0 have two: "date_ge (storedInstant testClock (applyUpserts testClock freshStore (take 2 upserts)) ''7'')
              (testClock (updatedAt (upserts ! 0)))"
    by simp
  have start: "storedInstant testClock (applyUpserts testClock freshStore (take 0 upserts)) ''7'' \<noteq> None"
    by (simp add: applyUpserts_def init)
  from c4 have "(0::nat) \<le> 4 \<and> 4 \<le> length upserts
       \<and> storedInstant testClock (applyUpserts testClock freshStore (take 0 upserts)) ''7'' \<noteq> None \<longrightarrow>
      date_ge (storedInstant testClock (applyUpserts testClock freshStore (take 4 upserts)) ''7'')
              (storedInstant testClock (applyUpserts testClock freshStore (take 0 upserts)) ''7'')"
    by blast
  with len start have three: "date_ge (storedInstant testClock (applyUpserts testClock freshStore (take 4 upserts)) ''7'')
              (storedInstant testClock (applyUpserts testClock freshStore (take 0 upserts)) ''7'')"
    by simp
  have last: "upserts ! 3 = mkMessage ''7'' ''b'' ''2023-01-02T00:00:00.000Z'' Read Customer"
    by (simp add: upserts_def)
  have h4: "3 < length upserts \<and> msgId (upserts ! 3) = ''7''
       \<and> testClock (updatedAt (upserts ! 3))
           = storedInstant testClock (applyUpserts testClock freshStore upserts) ''7''
       \<and> (\<forall>j. 3 < j \<and> j < length upserts \<and> msgId (upserts ! j) = ''7'' \<longrightarrow>
             testClock (updatedAt (upserts ! j))
               \<noteq> storedInstant testClock (applyUpserts testClock freshStore upserts) ''7'')"
    by (simp add: final len last) (simp add: testClock_def mkMessage_def)
  from c4 have "3 < length upserts \<and> msgId (upserts ! 3) = ''7''
       \<and> testClock (updatedAt (upserts ! 3))
           = storedInstant testClock (applyUpserts testClock freshStore upserts) ''7''
       \<and> (\<forall>j. 3 < j \<and> j < length upserts \<and> msgId (upserts ! j) = ''7'' \<longrightarrow>
             testClock (updatedAt (upserts ! j))
               \<noteq> storedInstant testClock (applyUpserts testClock freshStore upserts) ''7'')
      \<longrightarrow> storedNode (applyUpserts testClock freshStore upserts) ''7'' = Some (upserts ! 3)"
    by blast
  with h4 last have four: "storedNode (applyUpserts testClock freshStore upserts) ''7''
       = Some (mkMessage ''7'' ''b'' ''2023-01-02T00:00:00.000Z'' Read Customer)"
    by simp
  from final two three four show ?thesis by simp
qed

end
